theory Spec2Isabelle
  imports Main
begin

section \<open>Strings\<close>

text \<open>
  The program's strings are JavaScript strings. They are modelled as \<^typ>\<open>string\<close>
  restricted to ASCII text: \<open>trim\<close> strips the ASCII white space that
  \<^verbatim>\<open>String.prototype.trim\<close> strips (space, tab, line feed, vertical tab, form feed,
  carriage return) from both ends, and \<open>toLowerCase\<close> maps \<open>A\<close>..\<open>Z\<close> to
  \<open>a\<close>..\<open>z\<close> and leaves every other character alone.
\<close>

definition is_space :: "char \<Rightarrow> bool" where
  "is_space c = (c \<in> set [CHR 0x20, CHR 0x09, CHR 0x0A, CHR 0x0B, CHR 0x0C, CHR 0x0D])"

definition trim :: "string \<Rightarrow> string" where
  "trim s = rev (dropWhile is_space (rev (dropWhile is_space s)))"

definition lower_char :: "char \<Rightarrow> char" where
  "lower_char c =
     (case map_of (zip ''ABCDEFGHIJKLMNOPQRSTUVWXYZ'' ''abcdefghijklmnopqrstuvwxyz'') c of
        None \<Rightarrow> c
      | Some l \<Rightarrow> l)"

definition toLowerCase :: "string \<Rightarrow> string" where
  "toLowerCase s = map lower_char s"

section \<open>Data model\<close>

text \<open>
  \<^verbatim>\<open>types.ts\<close> declares \<open>WordData\<close> and \<open>SentenceData\<close>. The controller
  reads the identity field (\<open>word\<close>, \<open>sentence\<close>) and writes the two scheduling fields
  \<open>srs_level\<close> and \<open>next_review\<close> (optional: a fresh lookup result has neither); every
  other field comes from the provider and is passed through, so those are kept as one
  opaque \<open>details\<close> value beside \<open>meaning_vi\<close>. Field names of records are global in
  HOL, hence the prefix \<open>s_\<close> on the fields of \<open>SentenceData\<close>.
\<close>

datatype mode = WordMode | SentenceMode

datatype view = SearchView | FlashcardsView | StudyView

record WordData =
  word :: string
  meaning_vi :: string
  details :: string
  srs_level :: "nat option"
  next_review :: "nat option"

record SentenceData =
  sentence :: string
  s_meaning_vi :: string
  s_details :: string
  s_srs_level :: "nat option"
  s_next_review :: "nat option"

text \<open>\<^verbatim>\<open>WordData | SentenceData\<close>, told apart by \<^verbatim>\<open>'word' in item\<close>.\<close>

datatype item = WordItem WordData | SentenceItem SentenceData

section \<open>The lookup service and its two caches\<close>

text \<open>
  \<^verbatim>\<open>lookupWord\<close> and \<^verbatim>\<open>lookupSentence\<close> are asynchronous: each runs up to its
  \<^verbatim>\<open>await ai.models.generateContent(...)\<close>, and is resumed when the provider settles.
  What the provider and \<^verbatim>\<open>JSON.parse(response.text)\<close> produce together is a
  \<open>reply\<close>: the request is rejected, the text does not parse, or it parses to a value
  (which the source casts to the result type without a check). Both failures throw
  before \<^verbatim>\<open>wordCache.set\<close> is reached.
\<close>

datatype 'a reply = Rejected | Malformed | Parsed 'a

datatype exn = RequestFailed | JsonSyntaxError | TypeError

datatype 'a cached = Hit 'a | Miss string

record memo =
  wordCache :: "string \<rightharpoonup> WordData"
  sentenceCache :: "string \<rightharpoonup> SentenceData"

text \<open>Up to the await: the cache is consulted under the normalized input.\<close>

definition lookupWord_begin :: "memo \<Rightarrow> string \<Rightarrow> WordData cached" where
  "lookupWord_begin m input =
     (let normalized = toLowerCase (trim input) in
      case wordCache m normalized of
        Some v \<Rightarrow> Hit v
      | None \<Rightarrow> Miss normalized)"

text \<open>After the await, on the caches as they are when the provider settles.\<close>

fun lookupWord_end :: "string \<Rightarrow> WordData reply \<Rightarrow> memo \<Rightarrow> memo \<times> (exn + WordData)" where
  "lookupWord_end normalized Rejected m = (m, Inl RequestFailed)"
| "lookupWord_end normalized Malformed m = (m, Inl JsonSyntaxError)"
| "lookupWord_end normalized (Parsed result) m =
     (m\<lparr>wordCache := (wordCache m)(normalized \<mapsto> result)\<rparr>, Inr result)"

text \<open>
  One whole call with nothing running in between. The last component counts the
  requests sent to the provider; the reply is consulted on a miss only.
\<close>

definition lookupWord :: "string \<Rightarrow> WordData reply \<Rightarrow> memo \<Rightarrow> (memo \<times> (exn + WordData)) \<times> nat" where
  "lookupWord input r m =
     (case lookupWord_begin m input of
        Hit v \<Rightarrow> ((m, Inr v), 0)
      | Miss normalized \<Rightarrow> (lookupWord_end normalized r m, 1))"

definition lookupSentence_begin :: "memo \<Rightarrow> string \<Rightarrow> SentenceData cached" where
  "lookupSentence_begin m input =
     (let normalized = trim input in
      case sentenceCache m normalized of
        Some v \<Rightarrow> Hit v
      | None \<Rightarrow> Miss normalized)"

fun lookupSentence_end ::
  "string \<Rightarrow> SentenceData reply \<Rightarrow> memo \<Rightarrow> memo \<times> (exn + SentenceData)" where
  "lookupSentence_end normalized Rejected m = (m, Inl RequestFailed)"
| "lookupSentence_end normalized Malformed m = (m, Inl JsonSyntaxError)"
| "lookupSentence_end normalized (Parsed result) m =
     (m\<lparr>sentenceCache := (sentenceCache m)(normalized \<mapsto> result)\<rparr>, Inr result)"

definition lookupSentence ::
  "string \<Rightarrow> SentenceData reply \<Rightarrow> memo \<Rightarrow> (memo \<times> (exn + SentenceData)) \<times> nat" where
  "lookupSentence input r m =
     (case lookupSentence_begin m input of
        Hit v \<Rightarrow> ((m, Inr v), 0)
      | Miss normalized \<Rightarrow> (lookupSentence_end normalized r m, 1))"

section \<open>The state of the App component\<close>

record state =
  query :: string
  searchMode :: mode
  wordData :: "WordData option"
  sentenceData :: "SentenceData option"
  loading :: bool
  isSubLoading :: bool
  error :: "string option"
  lastLoadTime :: "nat option"
  currentView :: view
  sheetsUrl :: string
  selectedDetail :: "item option"
  latestQueryRef :: string
  savedWords :: "WordData list"
  savedSentences :: "SentenceData list"
  studyQueue :: "item list"
  debounceTimerRef :: "nat option"

subsection \<open>Loading the saved collections at startup\<close>








text \<open>
  The state record above holds the collections as lists: it is the state of a
  component whose initializers returned arrays, which is every state the handlers below
  are called in.
\<close>

definition initial_state :: "WordData list \<Rightarrow> SentenceData list \<Rightarrow> string \<Rightarrow> state" where
  "initial_state ws ss url =
     \<lparr>query = [], searchMode = WordMode, wordData = None, sentenceData = None,
      loading = False, isSubLoading = False, error = None, lastLoadTime = None,
      currentView = SearchView, sheetsUrl = url, selectedDetail = None,
      latestQueryRef = [], savedWords = ws, savedSentences = ss, studyQueue = [],
      debounceTimerRef = None\<rparr>"

subsection \<open>handleSearch\<close>

text \<open>
  \<^verbatim>\<open>handleSearch\<close> is a closure of one render: it reads \<open>query\<close>, \<open>searchMode\<close>,
  \<open>wordData\<close> and \<open>sentenceData\<close> as they were in that render, while
  \<open>latestQueryRef\<close> is a ref and the setters act on the current state.
\<close>

record render =
  r_query :: string
  r_searchMode :: mode
  r_wordData :: "WordData option"
  r_sentenceData :: "SentenceData option"

definition render_of :: "state \<Rightarrow> render" where
  "render_of s =
     \<lparr>r_query = query s, r_searchMode = searchMode s, r_wordData = wordData s,
      r_sentenceData = sentenceData s\<rparr>"

text \<open>What a suspended \<^verbatim>\<open>handleSearch\<close> holds on to across its await.\<close>

record search_await =
  a_cleanQuery :: string
  a_mode :: mode
  a_startTime :: nat

text \<open>
  Up to the await; \<open>now\<close> is \<^verbatim>\<open>performance.now()\<close>. \<open>None\<close>: the handler returned
  without calling the lookup service.
\<close>

definition handleSearch_begin :: "render \<Rightarrow> nat \<Rightarrow> state \<Rightarrow> state \<times> search_await option" where
  "handleSearch_begin r now s =
     (let cleanQuery = trim (r_query r) in
      if cleanQuery = [] then (s, None)
      else
        let s1 = s\<lparr>latestQueryRef := cleanQuery\<rparr> in
        if r_searchMode r = WordMode \<and>
           (case r_wordData r of
              None \<Rightarrow> False
            | Some w \<Rightarrow> toLowerCase (word w) = toLowerCase cleanQuery)
        then (s1, None)
        else if r_searchMode r = SentenceMode \<and>
           (case r_sentenceData r of
              None \<Rightarrow> False
            | Some d \<Rightarrow> toLowerCase (sentence d) = toLowerCase cleanQuery)
        then (s1, None)
        else
          (s1\<lparr>loading := True, error := None\<rparr>,
           Some \<lparr>a_cleanQuery = cleanQuery, a_mode = r_searchMode r, a_startTime = now\<rparr>))"

text \<open>
  The message of the source is Vietnamese; it is written here without its diacritics.
\<close>

definition lookup_error_message :: string where
  "lookup_error_message = ''Loi tra cuu. Vui long kiem tra lai ket noi.''"

text \<open>The \<^verbatim>\<open>catch\<close> and \<^verbatim>\<open>finally\<close> blocks, each behind the guard on the ref.\<close>

definition search_catch :: "string \<Rightarrow> state \<Rightarrow> state" where
  "search_catch cleanQuery s =
     (if latestQueryRef s = cleanQuery then s\<lparr>error := Some lookup_error_message\<rparr> else s)"

definition search_finally :: "string \<Rightarrow> state \<Rightarrow> state" where
  "search_finally cleanQuery s =
     (if latestQueryRef s = cleanQuery then s\<lparr>loading := False\<rparr> else s)"

text \<open>
  After the await of the word branch, given what \<^verbatim>\<open>lookupWord\<close> returned or threw;
  \<open>now\<close> is \<^verbatim>\<open>performance.now()\<close> at that moment.
\<close>

fun handleSearch_resume_word :: "search_await \<Rightarrow> exn + WordData \<Rightarrow> nat \<Rightarrow> state \<Rightarrow> state" where
  "handleSearch_resume_word a (Inr result) now s =
     search_finally (a_cleanQuery a)
       (if latestQueryRef s = a_cleanQuery a
        then s\<lparr>wordData := Some result, sentenceData := None,
               lastLoadTime := Some (now - a_startTime a)\<rparr>
        else s)"
| "handleSearch_resume_word a (Inl e) now s =
     search_finally (a_cleanQuery a) (search_catch (a_cleanQuery a) s)"

fun handleSearch_resume_sentence ::
  "search_await \<Rightarrow> exn + SentenceData \<Rightarrow> nat \<Rightarrow> state \<Rightarrow> state" where
  "handleSearch_resume_sentence a (Inr result) now s =
     search_finally (a_cleanQuery a)
       (if latestQueryRef s = a_cleanQuery a
        then s\<lparr>sentenceData := Some result, wordData := None,
               lastLoadTime := Some (now - a_startTime a)\<rparr>
        else s)"
| "handleSearch_resume_sentence a (Inl e) now s =
     search_finally (a_cleanQuery a) (search_catch (a_cleanQuery a) s)"

subsection \<open>handleQuickLookup and clearSearch\<close>

definition punctuation :: string where
  "punctuation = ''.,/#!$%^&*;:{}=-_`~()''"

definition handleQuickLookup_begin :: "string \<Rightarrow> state \<Rightarrow> state \<times> string option" where
  "handleQuickLookup_begin w s =
     (let cleanWord = trim (filter (\<lambda>c. c \<notin> set punctuation) w) in
      if cleanWord = [] \<or> length cleanWord < 2 then (s, None)
      else (s\<lparr>isSubLoading := True\<rparr>, Some cleanWord))"

text \<open>After the await; a failure goes to \<^verbatim>\<open>console.error\<close>, which is no state.\<close>

fun handleQuickLookup_resume :: "exn + WordData \<Rightarrow> state \<Rightarrow> state" where
  "handleQuickLookup_resume (Inr result) s =
     s\<lparr>selectedDetail := Some (WordItem result), isSubLoading := False\<rparr>"
| "handleQuickLookup_resume (Inl e) s = s\<lparr>isSubLoading := False\<rparr>"

definition clearSearch :: "state \<Rightarrow> state" where
  "clearSearch s =
     s\<lparr>query := [], wordData := None, sentenceData := None, error := None,
       lastLoadTime := None\<rparr>"

subsection \<open>isItemSaved and handleToggleSave\<close>

fun isItemSaved :: "state \<Rightarrow> item option \<Rightarrow> bool" where
  "isItemSaved s None = False"
| "isItemSaved s (Some (WordItem i)) =
     list_ex (\<lambda>w. toLowerCase (word w) = toLowerCase (word i)) (savedWords s)"
| "isItemSaved s (Some (SentenceItem i)) =
     list_ex (\<lambda>d. sentence d = sentence i) (savedSentences s)"

text \<open>\<open>now\<close> is \<^verbatim>\<open>Date.now()\<close>.\<close>

fun handleToggleSave :: "nat \<Rightarrow> item option \<Rightarrow> state \<Rightarrow> state" where
  "handleToggleSave now None s = s"
| "handleToggleSave now (Some (WordItem i)) s =
     (if isItemSaved s (Some (WordItem i))
      then s\<lparr>savedWords :=
               filter (\<lambda>w. toLowerCase (word w) \<noteq> toLowerCase (word i)) (savedWords s)\<rparr>
      else s\<lparr>savedWords := i\<lparr>srs_level := Some 0, next_review := Some now\<rparr> # savedWords s\<rparr>)"
| "handleToggleSave now (Some (SentenceItem i)) s =
     (if isItemSaved s (Some (SentenceItem i))
      then s\<lparr>savedSentences := filter (\<lambda>d. sentence d \<noteq> sentence i) (savedSentences s)\<rparr>
      else s\<lparr>savedSentences :=
               i\<lparr>s_srs_level := Some 0, s_next_review := Some now\<rparr> # savedSentences s\<rparr>)"

section \<open>The event loop\<close>

text \<open>
  What surrounds the component: the module's caches, the clock, the timers set with
  \<^verbatim>\<open>setTimeout\<close>, whether the last run of the debounce effect returned its cleanup
  function, the lookups suspended at their await, and a log of the requests sent to
  the provider (mode and normalized query).
\<close>

record timer =
  t_id :: nat
  t_due :: nat
  t_render :: render

datatype call = SearchCall search_await string | QuickCall string

record world =
  ui :: state
  caches :: memo
  clock :: nat
  timers :: "timer list"
  next_timer :: nat
  cleanup :: bool
  inflight :: "call list"
  requests :: "(mode \<times> string) list"

definition clearTimeout :: "nat \<Rightarrow> world \<Rightarrow> world" where
  "clearTimeout i w = w\<lparr>timers := filter (\<lambda>t. t_id t \<noteq> i) (timers w)\<rparr>"

definition setTimeout :: "render \<Rightarrow> nat \<Rightarrow> world \<Rightarrow> nat \<times> world" where
  "setTimeout r delay w =
     (next_timer w,
      w\<lparr>timers := timers w @ [\<lparr>t_id = next_timer w, t_due = clock w + delay, t_render = r\<rparr>],
        next_timer := Suc (next_timer w)\<rparr>)"

subsection \<open>The debounce effect\<close>

text \<open>The function the effect returns when it has set a timer.\<close>

definition effect_cleanup :: "world \<Rightarrow> world" where
  "effect_cleanup w =
     (case debounceTimerRef (ui w) of
        Some i \<Rightarrow> clearTimeout i w
      | None \<Rightarrow> w)"

text \<open>
  The body of the effect on \<^verbatim>\<open>[query, searchMode, currentView]\<close>. The timer calls the
  \<^verbatim>\<open>handleSearch\<close> of the render the effect belongs to.
\<close>

definition debounce_effect :: "world \<Rightarrow> world" where
  "debounce_effect w =
     (let s = ui w in
      if currentView s \<noteq> SearchView \<or> length (trim (query s)) < 2 then
        (if length (trim (query s)) = 0
         then w\<lparr>ui := s\<lparr>wordData := None, sentenceData := None, lastLoadTime := None\<rparr>,
                cleanup := False\<rparr>
         else w\<lparr>cleanup := False\<rparr>)
      else
        let w1 = (case debounceTimerRef s of Some i \<Rightarrow> clearTimeout i w | None \<Rightarrow> w);
            (i, w2) = setTimeout (render_of s) 400 w1
        in w2\<lparr>ui := (ui w2)\<lparr>debounceTimerRef := Some i\<rparr>, cleanup := True\<rparr>)"

definition deps :: "state \<Rightarrow> string \<times> mode \<times> view" where
  "deps s = (query s, searchMode s, currentView s)"

text \<open>
  An event handler has produced the state \<open>s'\<close>: React renders it, and when a
  dependency of the effect has changed it runs the cleanup of the effect's last run
  (if that run returned one) and then the effect.
\<close>

definition commit :: "state \<Rightarrow> world \<Rightarrow> world" where
  "commit s' w =
     (let w1 = w\<lparr>ui := s'\<rparr> in
      if deps s' = deps (ui w) then w1
      else debounce_effect (if cleanup w1 then effect_cleanup w1 else w1))"

text \<open>Mounting the component runs the effect once.\<close>

definition initial_world :: "WordData list \<Rightarrow> SentenceData list \<Rightarrow> string \<Rightarrow> world" where
  "initial_world ws ss url =
     debounce_effect
       \<lparr>ui = initial_state ws ss url,
        caches = \<lparr>wordCache = Map.empty, sentenceCache = Map.empty\<rparr>,
        clock = 0, timers = [], next_timer = 1, cleanup = False, inflight = [],
        requests = []\<rparr>"

subsection \<open>Running the handlers\<close>

text \<open>
  \<^verbatim>\<open>handleSearch\<close> of the render \<open>r\<close> is called. On a cache hit the lookup's promise
  is already resolved and the handler resumes before any other event; on a miss a
  request goes to the provider and the handler stays suspended. The handler changes no
  dependency of the debounce effect.
\<close>

definition start_search :: "render \<Rightarrow> world \<Rightarrow> world" where
  "start_search r w =
     (case handleSearch_begin r (clock w) (ui w) of
        (s1, None) \<Rightarrow> w\<lparr>ui := s1\<rparr>
      | (s1, Some a) \<Rightarrow>
          (case a_mode a of
             WordMode \<Rightarrow>
               (case lookupWord_begin (caches w) (a_cleanQuery a) of
                  Hit v \<Rightarrow> w\<lparr>ui := handleSearch_resume_word a (Inr v) (clock w) s1\<rparr>
                | Miss k \<Rightarrow>
                    w\<lparr>ui := s1, inflight := inflight w @ [SearchCall a k],
                      requests := requests w @ [(WordMode, k)]\<rparr>)
           | SentenceMode \<Rightarrow>
               (case lookupSentence_begin (caches w) (a_cleanQuery a) of
                  Hit v \<Rightarrow> w\<lparr>ui := handleSearch_resume_sentence a (Inr v) (clock w) s1\<rparr>
                | Miss k \<Rightarrow>
                    w\<lparr>ui := s1, inflight := inflight w @ [SearchCall a k],
                      requests := requests w @ [(SentenceMode, k)]\<rparr>)))"

definition start_quick :: "string \<Rightarrow> world \<Rightarrow> world" where
  "start_quick x w =
     (case handleQuickLookup_begin x (ui w) of
        (s1, None) \<Rightarrow> w\<lparr>ui := s1\<rparr>
      | (s1, Some cleanWord) \<Rightarrow>
          (case lookupWord_begin (caches w) cleanWord of
             Hit v \<Rightarrow> w\<lparr>ui := handleQuickLookup_resume (Inr v) s1\<rparr>
           | Miss k \<Rightarrow>
               w\<lparr>ui := s1, inflight := inflight w @ [QuickCall k],
                 requests := requests w @ [(WordMode, k)]\<rparr>))"

definition remove_nth :: "nat \<Rightarrow> 'a list \<Rightarrow> 'a list" where
  "remove_nth i xs = take i xs @ drop (Suc i) xs"

text \<open>
  The provider settles the \<open>i\<close>-th suspended lookup. A word reply settles a word
  lookup and a sentence reply a sentence lookup; any other pairing is no event of the
  program and leaves the world as it is.
\<close>

definition resolve_word :: "nat \<Rightarrow> WordData reply \<Rightarrow> world \<Rightarrow> world" where
  "resolve_word i r w =
     (if i < length (inflight w) then
        (case inflight w ! i of
           SearchCall a k \<Rightarrow>
             (if a_mode a = WordMode then
                (case lookupWord_end k r (caches w) of
                   (m, out) \<Rightarrow>
                     w\<lparr>caches := m, ui := handleSearch_resume_word a out (clock w) (ui w),
                       inflight := remove_nth i (inflight w)\<rparr>)
              else w)
         | QuickCall k \<Rightarrow>
             (case lookupWord_end k r (caches w) of
                (m, out) \<Rightarrow>
                  w\<lparr>caches := m, ui := handleQuickLookup_resume out (ui w),
                    inflight := remove_nth i (inflight w)\<rparr>))
      else w)"

definition resolve_sentence :: "nat \<Rightarrow> SentenceData reply \<Rightarrow> world \<Rightarrow> world" where
  "resolve_sentence i r w =
     (if i < length (inflight w) then
        (case inflight w ! i of
           SearchCall a k \<Rightarrow>
             (if a_mode a = SentenceMode then
                (case lookupSentence_end k r (caches w) of
                   (m, out) \<Rightarrow>
                     w\<lparr>caches := m, ui := handleSearch_resume_sentence a out (clock w) (ui w),
                       inflight := remove_nth i (inflight w)\<rparr>)
              else w)
         | QuickCall k \<Rightarrow> w)
      else w)"

text \<open>Time passes: the clock moves on and the timers that are due call their handler.\<close>

fun fire :: "timer list \<Rightarrow> world \<Rightarrow> world" where
  "fire [] w = w"
| "fire (t # ts) w = fire ts (start_search (t_render t) w)"

definition advance :: "nat \<Rightarrow> world \<Rightarrow> world" where
  "advance d w =
     (let c = clock w + d in
      fire (filter (\<lambda>t. t_due t \<le> c) (timers w))
        (w\<lparr>clock := c, timers := filter (\<lambda>t. \<not> t_due t \<le> c) (timers w)\<rparr>))"

datatype event =
    Type string
  | SetSearchMode mode
  | SetCurrentView view
  | ClearSearch
  | Submit
  | QuickLookup string
  | ToggleSave "item option"
  | Advance nat
  | ResolveWord nat "WordData reply"
  | ResolveSentence nat "SentenceData reply"

fun step :: "event \<Rightarrow> world \<Rightarrow> world" where
  "step (Type q) w = commit ((ui w)\<lparr>query := q\<rparr>) w"
| "step (SetSearchMode m) w = commit ((ui w)\<lparr>searchMode := m\<rparr>) w"
| "step (SetCurrentView v) w = commit ((ui w)\<lparr>currentView := v\<rparr>) w"
| "step ClearSearch w = commit (clearSearch (ui w)) w"
| "step Submit w = start_search (render_of (ui w)) w"
| "step (QuickLookup x) w = start_quick x w"
| "step (ToggleSave i) w = w\<lparr>ui := handleToggleSave (clock w) i (ui w)\<rparr>"
| "step (Advance d) w = advance d w"
| "step (ResolveWord i r) w = resolve_word i r w"
| "step (ResolveSentence i r) w = resolve_sentence i r w"

fun run :: "event list \<Rightarrow> world \<Rightarrow> world" where
  "run [] w = w"
| "run (e # es) w = run es (step e w)"

text \<open>
  Keystrokes, each followed by the time that passes before the next event.
\<close>

fun burst :: "(string \<times> nat) list \<Rightarrow> event list" where
  "burst [] = []"
| "burst ((q, d) # ks) = Type q # Advance d # burst ks"

section \<open>Sample values\<close>

definition cat_result :: WordData where
  "cat_result = \<lparr>word = ''cat'', meaning_vi = ''con meo'', details = [], srs_level = None, next_review = None\<rparr>"
definition hello_result :: SentenceData where
  "hello_result = \<lparr>sentence = ''Hello there.'', s_meaning_vi = ''Xin chao.'', s_details = [], s_srs_level = None, s_next_review = None\<rparr>"
definition empty_memo :: memo where
  "empty_memo = \<lparr>wordCache = Map.empty, sentenceCache = Map.empty\<rparr>"



definition dog_result :: WordData where
  "dog_result = \<lparr>word = ''dog'', meaning_vi = ''con cho'', details = [], srs_level = None, next_review = None\<rparr>"

definition run_result :: WordData where
  "run_result = \<lparr>word = ''run'', meaning_vi = ''chay'', details = [], srs_level = None, next_review = None\<rparr>"

definition run_saved :: WordData where
  "run_saved = \<lparr>word = ''Run'', meaning_vi = ''chay'', details = [], srs_level = Some 2, next_review = Some 90\<rparr>"

definition typed :: "string \<Rightarrow> render" where
  "typed q = \<lparr>r_query = q, r_searchMode = WordMode, r_wordData = None, r_sentenceData = None\<rparr>"

text \<open>
  A session: \<open>cat\<close> is typed, looked up after the delay and displayed; then \<open>dog\<close> is
  typed and its lookup is sent and still pending.
\<close>

definition world_cat_shown_dog_pending :: world where
  "world_cat_shown_dog_pending =
     run [Type ''cat'', Advance 400, ResolveWord 0 (Parsed cat_result), Type ''dog'', Advance 400]
       (initial_world [] [] [])"

text \<open>In that session \<open>cat\<close> is typed again, and the delay has not passed yet.\<close>

definition world_cat_retyped :: world where
  "world_cat_retyped = step (Type ''cat'') world_cat_shown_dog_pending"

text \<open>In that session a word of the displayed card is clicked.\<close>

definition world_quick_pending :: world where
  "world_quick_pending = run [QuickLookup ''(Run).''] world_cat_shown_dog_pending"

text \<open>A session whose only lookup has failed.\<close>

definition world_failed :: world where
  "world_failed = run [Type ''zz'', Advance 400, ResolveWord 0 Rejected] (initial_world [] [] [])"

section \<open>The state a primary lookup works on\<close>

text \<open>
  The marker of the latest dispatched query, the primary loading flag, the displayed
  result and the error: read out of a state, and written into one.
\<close>

definition primary :: "state \<Rightarrow> string \<times> bool \<times> WordData option \<times> SentenceData option \<times> string option" where
  "primary s = (latestQueryRef s, loading s, wordData s, sentenceData s, error s)"

definition set_primary ::
  "string \<times> bool \<times> WordData option \<times> SentenceData option \<times> string option \<Rightarrow> state \<Rightarrow> state" where
  "set_primary p s =
     (case p of (q, l, w, d, e) \<Rightarrow>
        s\<lparr>latestQueryRef := q, loading := l, wordData := w, sentenceData := d, error := e\<rparr>)"

section \<open>Words for the debounce\<close>

text \<open>
  At most one timer is pending, and then it is the one \<open>debounceTimerRef\<close> names and
  the effect's cleanup is registered.
\<close>

definition tidy :: "world \<Rightarrow> bool" where
  "tidy w =
     (case timers w of
        [] \<Rightarrow> True
      | [t] \<Rightarrow> debounceTimerRef (ui w) = Some (t_id t) \<and> cleanup w
      | _ \<Rightarrow> False)"

text \<open>The timers pending after the effect has run for the state \<open>s'\<close>.\<close>

definition scheduled :: "state \<Rightarrow> world \<Rightarrow> timer list" where
  "scheduled s' w =
     (if currentView s' = SearchView \<and> 2 \<le> length (trim (query s'))
      then [\<lparr>t_id = next_timer w, t_due = clock w + 400, t_render = render_of s'\<rparr>]
      else [])"

text \<open>Every text of the list differs from the one before it, the first from \<open>p\<close>.\<close>

fun changes :: "string \<Rightarrow> string list \<Rightarrow> bool" where
  "changes p [] = True"
| "changes p (q # qs) = (q \<noteq> p \<and> changes q qs)"

text \<open>The two checks of \<^verbatim>\<open>handleSearch\<close> against the displayed result.\<close>

definition same_as_displayed ::
  "mode \<Rightarrow> WordData option \<Rightarrow> SentenceData option \<Rightarrow> string \<Rightarrow> bool" where
  "same_as_displayed m wd sd cleanQuery =
     ((m = WordMode \<and>
       (case wd of None \<Rightarrow> False | Some x \<Rightarrow> toLowerCase (word x) = toLowerCase cleanQuery)) \<or>
      (m = SentenceMode \<and>
       (case sd of None \<Rightarrow> False | Some x \<Rightarrow> toLowerCase (sentence x) = toLowerCase cleanQuery)))"

text \<open>The key of a query in its mode's cache, and whether the cache holds it.\<close>

fun normalize :: "mode \<Rightarrow> string \<Rightarrow> string" where
  "normalize WordMode q = toLowerCase (trim q)"
| "normalize SentenceMode q = trim q"

fun memoized :: "memo \<Rightarrow> mode \<Rightarrow> string \<Rightarrow> bool" where
  "memoized m WordMode q = (wordCache m (normalize WordMode q) \<noteq> None)"
| "memoized m SentenceMode q = (sentenceCache m (normalize SentenceMode q) \<noteq> None)"

text \<open>
  Between two worlds no request was sent, nothing was cached or settled, mode and view
  are the same, and the displayed result is the same or was cleared.
\<close>

definition unchanged_lookups :: "world \<Rightarrow> world \<Rightarrow> bool" where
  "unchanged_lookups w w' =
     (requests w' = requests w \<and> caches w' = caches w \<and> inflight w' = inflight w \<and>
      searchMode (ui w') = searchMode (ui w) \<and> currentView (ui w') = currentView (ui w) \<and>
      (wordData (ui w') = wordData (ui w) \<or> wordData (ui w') = None) \<and>
      (sentenceData (ui w') = sentenceData (ui w) \<or> sentenceData (ui w') = None))"

section \<open>Facts about strings\<close>

lemma lower_char_idem: "lower_char (lower_char c) = lower_char c"
  by (simp add: lower_char_def)

lemma toLowerCase_idem: "toLowerCase (toLowerCase x) = toLowerCase x"
  by (simp add: toLowerCase_def lower_char_idem)

lemma dropWhile_id: "xs = [] \<or> \<not> P (hd xs) \<Longrightarrow> dropWhile P xs = xs"
  by (cases xs) auto

lemma last_dropWhile: "dropWhile P xs \<noteq> [] \<Longrightarrow> last (dropWhile P xs) = last xs"
  by (induction xs) (auto split: if_splits)

lemma dropWhile_rev_stable:
  fixes u :: "'a list"
  assumes u: "u = [] \<or> \<not> P (hd u)"
  shows "dropWhile P (rev (dropWhile P (rev u))) = rev (dropWhile P (rev u))"
proof (cases "dropWhile P (rev u) = []")
  case True
  show ?thesis unfolding True by simp
next
  case False
  then have ne: "u \<noteq> []" by auto
  have "hd (rev (dropWhile P (rev u))) = last (dropWhile P (rev u))"
    using False by (simp add: hd_rev)
  also have "\<dots> = last (rev u)" using False by (rule last_dropWhile)
  also have "\<dots> = hd u" using ne by (simp add: last_rev)
  finally have "\<not> P (hd (rev (dropWhile P (rev u))))" using u ne by simp
  then show ?thesis by (simp add: dropWhile_id)
qed

lemma trim_idem: "trim (trim s) = trim s"
proof -
  let ?u = "dropWhile is_space s"
  have u: "?u = [] \<or> \<not> is_space (hd ?u)" using hd_dropWhile [of is_space s] by blast
  have "dropWhile is_space (rev (dropWhile is_space (rev ?u))) = rev (dropWhile is_space (rev ?u))"
    using u by (rule dropWhile_rev_stable)
  then show ?thesis by (simp add: trim_def)
qed

lemma trim_Cat: "trim '' Cat '' = ''Cat''" by (simp add: trim_def is_space_def)

lemma trim_CAT: "trim ''CAT'' = ''CAT''" by (simp add: trim_def is_space_def)

lemma lower_Cat: "toLowerCase ''Cat'' = ''cat''" by (simp add: toLowerCase_def lower_char_def)

lemma lower_CAT: "toLowerCase ''CAT'' = ''cat''" by (simp add: toLowerCase_def lower_char_def)

lemma trim_hello: "trim ''Hello there. '' = ''Hello there.''" by (simp add: trim_def is_space_def)

lemma trim_hello2: "trim '' Hello there.'' = ''Hello there.''" by (simp add: trim_def is_space_def)

lemma lower_Run: "toLowerCase ''Run'' = ''run''" by (simp add: toLowerCase_def lower_char_def)

lemma lower_run: "toLowerCase ''run'' = ''run''" by (simp add: toLowerCase_def lower_char_def)

section \<open>The lookup service\<close>

lemma lookupWord_begin_cong:
  "toLowerCase (trim i2) = toLowerCase (trim i1) \<Longrightarrow> lookupWord_begin m i2 = lookupWord_begin m i1"
  by (simp add: lookupWord_begin_def)

lemma lookupSentence_begin_cong:
  "trim j2 = trim j1 \<Longrightarrow> lookupSentence_begin m j2 = lookupSentence_begin m j1"
  by (simp add: lookupSentence_begin_def)

lemma lookupWord_success:
  assumes "lookupWord i r m = ((m1, Inr v), n)"
  shows "wordCache m1 (toLowerCase (trim i)) = Some v \<and> n \<le> 1 \<and> sentenceCache m1 = sentenceCache m"
  using assms
  by (cases r) (auto simp: lookupWord_def lookupWord_begin_def Let_def split: option.splits)

lemma lookupSentence_success:
  assumes "lookupSentence i r m = ((m1, Inr v), n)"
  shows "sentenceCache m1 (trim i) = Some v \<and> n \<le> 1 \<and> wordCache m1 = wordCache m"
  using assms
  by (cases r) (auto simp: lookupSentence_def lookupSentence_begin_def Let_def split: option.splits)

lemma lookupWord_hit:
  "wordCache m (toLowerCase (trim i)) = Some v \<Longrightarrow> lookupWord i r m = ((m, Inr v), 0)"
  by (simp add: lookupWord_def lookupWord_begin_def)

lemma lookupSentence_hit:
  "sentenceCache m (trim i) = Some v \<Longrightarrow> lookupSentence i r m = ((m, Inr v), 0)"
  by (simp add: lookupSentence_def lookupSentence_begin_def)

lemma lookupWord_frame:
  "lookupWord i r (m\<lparr>sentenceCache := sc\<rparr>) =
     (case lookupWord i r m of ((m', out), n) \<Rightarrow> ((m'\<lparr>sentenceCache := sc\<rparr>, out), n))"
  by (cases r) (auto simp: lookupWord_def lookupWord_begin_def Let_def split: option.splits)

lemma lookupSentence_frame:
  "lookupSentence i r (m\<lparr>wordCache := wc\<rparr>) =
     (case lookupSentence i r m of ((m', out), n) \<Rightarrow> ((m'\<lparr>wordCache := wc\<rparr>, out), n))"
  by (cases r) (auto simp: lookupSentence_def lookupSentence_begin_def Let_def split: option.splits)

text \<open>
  C2. Two calls of the lookup service, one after the other, whose inputs have the same
  normalized form (trimmed, and lower-cased for words): when the first call returns a
  value, the second returns that same value from the cache, leaves the caches as they
  are and sends no request, whatever the provider would reply, so that the two
  calls together send at most one request. A word lookup leaves the sentence cache
  alone and does not depend on it, and the other way round.
\<close>

theorem memoizer_idempotence:
  "(lookupWord i1 r1 m = ((m1, Inr v), n1) \<and> toLowerCase (trim i2) = toLowerCase (trim i1) \<longrightarrow>
      lookupWord i2 r2 m1 = ((m1, Inr v), 0) \<and> n1 + snd (lookupWord i2 r2 m1) \<le> 1 \<and>
      sentenceCache m1 = sentenceCache m) \<and>
   (lookupSentence j1 q1 m = ((m2, Inr u), k1) \<and> trim j2 = trim j1 \<longrightarrow>
      lookupSentence j2 q2 m2 = ((m2, Inr u), 0) \<and> k1 + snd (lookupSentence j2 q2 m2) \<le> 1 \<and>
      wordCache m2 = wordCache m) \<and>
   lookupWord i r (m\<lparr>sentenceCache := sc\<rparr>) =
     (case lookupWord i r m of ((m', out), n) \<Rightarrow> ((m'\<lparr>sentenceCache := sc\<rparr>, out), n)) \<and>
   lookupSentence j q (m\<lparr>wordCache := wc\<rparr>) =
     (case lookupSentence j q m of ((m', out), n) \<Rightarrow> ((m'\<lparr>wordCache := wc\<rparr>, out), n))"
proof (intro conjI impI)
  assume a: "lookupWord i1 r1 m = ((m1, Inr v), n1) \<and> toLowerCase (trim i2) = toLowerCase (trim i1)"
  from a lookupWord_success [of i1 r1 m m1 v n1]
  have c: "wordCache m1 (toLowerCase (trim i2)) = Some v" and n: "n1 \<le> 1"
    and f: "sentenceCache m1 = sentenceCache m" by simp_all
  from c show h: "lookupWord i2 r2 m1 = ((m1, Inr v), 0)" by (rule lookupWord_hit)
  from n h show "n1 + snd (lookupWord i2 r2 m1) \<le> 1" by simp
  from f show "sentenceCache m1 = sentenceCache m" .
next
  assume a: "lookupSentence j1 q1 m = ((m2, Inr u), k1) \<and> trim j2 = trim j1"
  from a lookupSentence_success [of j1 q1 m m2 u k1]
  have c: "sentenceCache m2 (trim j2) = Some u" and n: "k1 \<le> 1"
    and f: "wordCache m2 = wordCache m" by simp_all
  from c show h: "lookupSentence j2 q2 m2 = ((m2, Inr u), 0)" by (rule lookupSentence_hit)
  from n h show "k1 + snd (lookupSentence j2 q2 m2) \<le> 1" by simp
  from f show "wordCache m2 = wordCache m" .
next
  show "lookupWord i r (m\<lparr>sentenceCache := sc\<rparr>) =
     (case lookupWord i r m of ((m', out), n) \<Rightarrow> ((m'\<lparr>sentenceCache := sc\<rparr>, out), n))"
    by (rule lookupWord_frame)
next
  show "lookupSentence j q (m\<lparr>wordCache := wc\<rparr>) =
     (case lookupSentence j q m of ((m', out), n) \<Rightarrow> ((m'\<lparr>wordCache := wc\<rparr>, out), n))"
    by (rule lookupSentence_frame)
qed


theorem memoizer_idempotence_witness:
  "lookupWord '' Cat '' (Parsed cat_result) empty_memo =
     ((empty_memo\<lparr>wordCache := [''cat'' \<mapsto> cat_result]\<rparr>, Inr cat_result), 1) \<and>
   toLowerCase (trim ''CAT'') = toLowerCase (trim '' Cat '') \<and>
   lookupWord ''CAT'' Rejected (empty_memo\<lparr>wordCache := [''cat'' \<mapsto> cat_result]\<rparr>) =
     ((empty_memo\<lparr>wordCache := [''cat'' \<mapsto> cat_result]\<rparr>, Inr cat_result), 0) \<and>
   lookupSentence ''Hello there. '' (Parsed hello_result) empty_memo =
     ((empty_memo\<lparr>sentenceCache := [''Hello there.'' \<mapsto> hello_result]\<rparr>, Inr hello_result), 1) \<and>
   trim '' Hello there.'' = trim ''Hello there. '' \<and>
   lookupSentence '' Hello there.'' Malformed (empty_memo\<lparr>sentenceCache := [''Hello there.'' \<mapsto> hello_result]\<rparr>) =
     ((empty_memo\<lparr>sentenceCache := [''Hello there.'' \<mapsto> hello_result]\<rparr>, Inr hello_result), 0)"
proof -
  have w1: "lookupWord '' Cat '' (Parsed cat_result) empty_memo =
     ((empty_memo\<lparr>wordCache := [''cat'' \<mapsto> cat_result]\<rparr>, Inr cat_result), 1)"
    by (simp add: lookupWord_def lookupWord_begin_def trim_Cat lower_Cat empty_memo_def)
  have w2: "toLowerCase (trim ''CAT'') = toLowerCase (trim '' Cat '')"
    by (simp add: trim_Cat trim_CAT lower_Cat lower_CAT)
  have s1: "lookupSentence ''Hello there. '' (Parsed hello_result) empty_memo =
     ((empty_memo\<lparr>sentenceCache := [''Hello there.'' \<mapsto> hello_result]\<rparr>, Inr hello_result), 1)"
    by (simp add: lookupSentence_def lookupSentence_begin_def trim_hello empty_memo_def)
  have s2: "trim '' Hello there.'' = trim ''Hello there. ''"
    by (simp add: trim_hello trim_hello2)
  from w1 w2 s1 s2
    memoizer_idempotence [of "'' Cat ''" "Parsed cat_result" empty_memo
      "empty_memo\<lparr>wordCache := [''cat'' \<mapsto> cat_result]\<rparr>" cat_result 1 "''CAT''" Rejected
      "''Hello there. ''" "Parsed hello_result"
      "empty_memo\<lparr>sentenceCache := [''Hello there.'' \<mapsto> hello_result]\<rparr>" hello_result 1
      "'' Hello there.''" Malformed]
  show ?thesis by simp
qed

lemma lookup_end_failure:
  "r = Rejected \<or> r = Malformed \<Longrightarrow> fst (lookupWord_end k r m) = m \<and> isl (snd (lookupWord_end k r m))"
  "q = Rejected \<or> q = Malformed \<Longrightarrow> fst (lookupSentence_end k q m) = m \<and> isl (snd (lookupSentence_end k q m))"
  by auto

lemma lookupWord_miss:
  "lookupWord_begin m i = Miss k \<Longrightarrow> lookupWord i r m = (lookupWord_end k r m, 1)"
  by (simp add: lookupWord_def)

lemma lookupSentence_miss:
  "lookupSentence_begin m i = Miss k \<Longrightarrow> lookupSentence i r m = (lookupSentence_end k r m, 1)"
  by (simp add: lookupSentence_def)

text \<open>
  C7. A lookup whose request is rejected, or whose response does not parse, puts
  nothing into its cache: the caches are what they were and the lookup throws. So
  the next lookup with the same normalized input misses again and sends a request
  of its own.
\<close>

theorem failures_not_memoized:
  assumes r: "r = Rejected \<or> r = Malformed" and q: "q = Rejected \<or> q = Malformed"
  shows "fst (lookupWord_end k r m) = m \<and> isl (snd (lookupWord_end k r m)) \<and>
         fst (lookupSentence_end k q m) = m \<and> isl (snd (lookupSentence_end k q m)) \<and>
         (lookupWord_begin m i = Miss k \<and> toLowerCase (trim i') = toLowerCase (trim i) \<longrightarrow>
            fst (fst (lookupWord i r m)) = m \<and> isl (snd (fst (lookupWord i r m))) \<and>
            lookupWord_begin (fst (fst (lookupWord i r m))) i' = Miss k \<and>
            snd (lookupWord i' r' (fst (fst (lookupWord i r m)))) = 1) \<and>
         (lookupSentence_begin m j = Miss k \<and> trim j' = trim j \<longrightarrow>
            fst (fst (lookupSentence j q m)) = m \<and> isl (snd (fst (lookupSentence j q m))) \<and>
            lookupSentence_begin (fst (fst (lookupSentence j q m))) j' = Miss k \<and>
            snd (lookupSentence j' q' (fst (fst (lookupSentence j q m)))) = 1)"
proof (intro conjI impI)
  show "fst (lookupWord_end k r m) = m" "isl (snd (lookupWord_end k r m))"
    using lookup_end_failure(1) [OF r] by simp_all
  show "fst (lookupSentence_end k q m) = m" "isl (snd (lookupSentence_end k q m))"
    using lookup_end_failure(2) [OF q] by simp_all
next
  assume a: "lookupWord_begin m i = Miss k \<and> toLowerCase (trim i') = toLowerCase (trim i)"
  then have 1: "lookupWord i r m = (lookupWord_end k r m, 1)" by (simp add: lookupWord_miss)
  from a have 2: "lookupWord_begin m i' = Miss k"
    using lookupWord_begin_cong [of i' i m] by simp
  from 1 lookup_end_failure(1) [OF r]
  show m: "fst (fst (lookupWord i r m)) = m" and "isl (snd (fst (lookupWord i r m)))" by simp_all
  from m 2 show "lookupWord_begin (fst (fst (lookupWord i r m))) i' = Miss k" by simp
  from m 2 show "snd (lookupWord i' r' (fst (fst (lookupWord i r m)))) = 1"
    by (simp add: lookupWord_miss)
next
  assume a: "lookupSentence_begin m j = Miss k \<and> trim j' = trim j"
  then have 1: "lookupSentence j q m = (lookupSentence_end k q m, 1)" by (simp add: lookupSentence_miss)
  from a have 2: "lookupSentence_begin m j' = Miss k"
    using lookupSentence_begin_cong [of j' j m] by simp
  from 1 lookup_end_failure(2) [OF q]
  show m: "fst (fst (lookupSentence j q m)) = m" and "isl (snd (fst (lookupSentence j q m)))" by simp_all
  from m 2 show "lookupSentence_begin (fst (fst (lookupSentence j q m))) j' = Miss k" by simp
  from m 2 show "snd (lookupSentence j' q' (fst (fst (lookupSentence j q m)))) = 1"
    by (simp add: lookupSentence_miss)
qed

theorem failures_not_memoized_witness:
  "lookupWord_begin empty_memo '' Cat '' = Miss ''cat'' \<and>
   toLowerCase (trim ''CAT'') = toLowerCase (trim '' Cat '') \<and>
   lookupWord '' Cat '' Rejected empty_memo = ((empty_memo, Inl RequestFailed), 1) \<and>
   lookupWord ''CAT'' (Parsed cat_result) (fst (fst (lookupWord '' Cat '' Rejected empty_memo))) =
     ((empty_memo\<lparr>wordCache := [''cat'' \<mapsto> cat_result]\<rparr>, Inr cat_result), 1) \<and>
   lookupSentence_begin empty_memo ''Hello there. '' = Miss ''Hello there.'' \<and>
   trim '' Hello there.'' = trim ''Hello there. '' \<and>
   lookupSentence ''Hello there. '' Malformed empty_memo = ((empty_memo, Inl JsonSyntaxError), 1) \<and>
   snd (lookupSentence '' Hello there.'' Rejected
          (fst (fst (lookupSentence ''Hello there. '' Malformed empty_memo)))) = 1"
proof -
  have b1: "lookupWord_begin empty_memo '' Cat '' = Miss ''cat''"
    by (simp add: lookupWord_begin_def trim_Cat lower_Cat empty_memo_def)
  have b2: "toLowerCase (trim ''CAT'') = toLowerCase (trim '' Cat '')"
    by (simp add: trim_Cat trim_CAT lower_Cat lower_CAT)
  have b3: "lookupSentence_begin empty_memo ''Hello there. '' = Miss ''Hello there.''"
    by (simp add: lookupSentence_begin_def trim_hello empty_memo_def)
  have b4: "trim '' Hello there.'' = trim ''Hello there. ''"
    by (simp add: trim_hello trim_hello2)
  have c1: "lookupWord '' Cat '' Rejected empty_memo = ((empty_memo, Inl RequestFailed), 1)"
    using b1 by (simp add: lookupWord_def)
  have c2: "lookupSentence ''Hello there. '' Malformed empty_memo = ((empty_memo, Inl JsonSyntaxError), 1)"
    using b3 by (simp add: lookupSentence_def)
  have c3: "lookupWord ''CAT'' (Parsed cat_result) empty_memo =
     ((empty_memo\<lparr>wordCache := [''cat'' \<mapsto> cat_result]\<rparr>, Inr cat_result), 1)"
    by (simp add: lookupWord_def lookupWord_begin_def trim_CAT lower_CAT empty_memo_def)
  from b1 b2 b3 b4 c1 c2 c3
    failures_not_memoized [of Rejected Malformed "''cat''" empty_memo "'' Cat ''" "''CAT''"
      "Parsed cat_result"]
    failures_not_memoized [of Rejected Malformed "''Hello there.''" empty_memo _ _ _
      "''Hello there. ''" "'' Hello there.''" Rejected]
  show ?thesis by simp
qed

section \<open>Loading at startup\<close>





section \<open>The saved collections\<close>

lemma isItemSaved_filter_word:
  "\<not> list_ex (\<lambda>w. toLowerCase (word w) = k) (filter (\<lambda>w. toLowerCase (word w) \<noteq> k) xs)"
  by (simp add: list_ex_iff)

lemma isItemSaved_filter_sentence:
  "\<not> list_ex (\<lambda>d. sentence d = k) (filter (\<lambda>d. sentence d \<noteq> k) xs)"
  by (simp add: list_ex_iff)

text \<open>
  C3. Toggling an item whose identity is in its collection (words compared without
  regard to case, sentences by their exact text) filters the entries of that identity
  out and adds nothing: the entries of every other identity stay, in their order, and
  the item is no longer saved. Toggling an item that is not there puts it at the front
  with \<open>srs_level = 0\<close> and \<open>next_review = now\<close>, before the old entries. Nothing
  else of the state changes.
\<close>

theorem toggleSave_postcondition:
  "(isItemSaved s (Some (WordItem i)) \<longrightarrow>
      handleToggleSave now (Some (WordItem i)) s =
        s\<lparr>savedWords :=
            filter (\<lambda>w. toLowerCase (word w) \<noteq> toLowerCase (word i)) (savedWords s)\<rparr> \<and>
      \<not> isItemSaved (handleToggleSave now (Some (WordItem i)) s) (Some (WordItem i)) \<and>
      set (savedWords (handleToggleSave now (Some (WordItem i)) s)) \<subseteq> set (savedWords s)) \<and>
   (\<not> isItemSaved s (Some (WordItem i)) \<longrightarrow>
      handleToggleSave now (Some (WordItem i)) s =
        s\<lparr>savedWords := i\<lparr>srs_level := Some 0, next_review := Some now\<rparr> # savedWords s\<rparr>) \<and>
   (isItemSaved s (Some (SentenceItem j)) \<longrightarrow>
      handleToggleSave now (Some (SentenceItem j)) s =
        s\<lparr>savedSentences := filter (\<lambda>d. sentence d \<noteq> sentence j) (savedSentences s)\<rparr> \<and>
      \<not> isItemSaved (handleToggleSave now (Some (SentenceItem j)) s) (Some (SentenceItem j)) \<and>
      set (savedSentences (handleToggleSave now (Some (SentenceItem j)) s))
        \<subseteq> set (savedSentences s)) \<and>
   (\<not> isItemSaved s (Some (SentenceItem j)) \<longrightarrow>
      handleToggleSave now (Some (SentenceItem j)) s =
        s\<lparr>savedSentences :=
            j\<lparr>s_srs_level := Some 0, s_next_review := Some now\<rparr> # savedSentences s\<rparr>)"
proof (intro conjI impI)
  assume p: "isItemSaved s (Some (WordItem i))"
  then show e: "handleToggleSave now (Some (WordItem i)) s =
        s\<lparr>savedWords :=
            filter (\<lambda>w. toLowerCase (word w) \<noteq> toLowerCase (word i)) (savedWords s)\<rparr>"
    by simp
  show "\<not> isItemSaved (handleToggleSave now (Some (WordItem i)) s) (Some (WordItem i))"
    unfolding e by (simp add: isItemSaved_filter_word)
  show "set (savedWords (handleToggleSave now (Some (WordItem i)) s)) \<subseteq> set (savedWords s)"
    unfolding e by simp
next
  assume "\<not> isItemSaved s (Some (WordItem i))"
  then show "handleToggleSave now (Some (WordItem i)) s =
        s\<lparr>savedWords := i\<lparr>srs_level := Some 0, next_review := Some now\<rparr> # savedWords s\<rparr>"
    by simp
next
  assume p: "isItemSaved s (Some (SentenceItem j))"
  then show e: "handleToggleSave now (Some (SentenceItem j)) s =
        s\<lparr>savedSentences := filter (\<lambda>d. sentence d \<noteq> sentence j) (savedSentences s)\<rparr>"
    by simp
  show "\<not> isItemSaved (handleToggleSave now (Some (SentenceItem j)) s) (Some (SentenceItem j))"
    unfolding e by (simp add: isItemSaved_filter_sentence)
  show "set (savedSentences (handleToggleSave now (Some (SentenceItem j)) s))
        \<subseteq> set (savedSentences s)"
    unfolding e by simp
next
  assume "\<not> isItemSaved s (Some (SentenceItem j))"
  then show "handleToggleSave now (Some (SentenceItem j)) s =
        s\<lparr>savedSentences :=
            j\<lparr>s_srs_level := Some 0, s_next_review := Some now\<rparr> # savedSentences s\<rparr>"
    by simp
qed

theorem toggleSave_postcondition_witness:
  "isItemSaved (initial_state [run_saved] [] []) (Some (WordItem run_result)) \<and>
   savedWords (handleToggleSave 100 (Some (WordItem run_result)) (initial_state [run_saved] [] [])) = [] \<and>
   \<not> isItemSaved (initial_state [cat_result] [] []) (Some (WordItem run_result)) \<and>
   savedWords (handleToggleSave 100 (Some (WordItem run_result)) (initial_state [cat_result] [] [])) =
     [run_result\<lparr>srs_level := Some 0, next_review := Some 100\<rparr>, cat_result] \<and>
   isItemSaved (initial_state [] [hello_result] []) (Some (SentenceItem hello_result)) \<and>
   savedSentences (handleToggleSave 100 (Some (SentenceItem hello_result))
     (initial_state [] [hello_result] [])) = [] \<and>
   \<not> isItemSaved (initial_state [] [] []) (Some (SentenceItem hello_result)) \<and>
   savedSentences (handleToggleSave 100 (Some (SentenceItem hello_result)) (initial_state [] [] [])) =
     [hello_result\<lparr>s_srs_level := Some 0, s_next_review := Some 100\<rparr>]"
proof -
  have a: "isItemSaved (initial_state [run_saved] [] []) (Some (WordItem run_result))"
    by (simp add: initial_state_def run_saved_def run_result_def lower_Run lower_run)
  have b: "\<not> isItemSaved (initial_state [cat_result] [] []) (Some (WordItem run_result))"
    by (simp add: initial_state_def cat_result_def run_result_def lower_run toLowerCase_def lower_char_def)
  have c: "isItemSaved (initial_state [] [hello_result] []) (Some (SentenceItem hello_result))"
    by (simp add: initial_state_def)
  have d: "\<not> isItemSaved (initial_state [] [] []) (Some (SentenceItem hello_result))"
    by (simp add: initial_state_def)
  have 1: "savedWords (handleToggleSave 100 (Some (WordItem run_result)) (initial_state [run_saved] [] [])) = []"
    using a toggleSave_postcondition [of "initial_state [run_saved] [] []" run_result 100]
    by (simp add: initial_state_def run_saved_def run_result_def lower_Run lower_run)
  have 2: "savedWords (handleToggleSave 100 (Some (WordItem run_result)) (initial_state [cat_result] [] [])) =
     [run_result\<lparr>srs_level := Some 0, next_review := Some 100\<rparr>, cat_result]"
    using b toggleSave_postcondition [of "initial_state [cat_result] [] []" run_result 100]
    by (simp add: initial_state_def)
  have 3: "savedSentences (handleToggleSave 100 (Some (SentenceItem hello_result))
     (initial_state [] [hello_result] [])) = []"
    using c toggleSave_postcondition [of "initial_state [] [hello_result] []" _ 100 hello_result]
    by (simp add: initial_state_def)
  have 4: "savedSentences (handleToggleSave 100 (Some (SentenceItem hello_result)) (initial_state [] [] [])) =
     [hello_result\<lparr>s_srs_level := Some 0, s_next_review := Some 100\<rparr>]"
    using d toggleSave_postcondition [of "initial_state [] [] []" _ 100 hello_result]
    by (simp add: initial_state_def)
  from a b c d 1 2 3 4 show ?thesis by simp
qed

section \<open>The primary lookup\<close>

lemma begin_sets_marker:
  "handleSearch_begin r now s = (s', Some a) \<Longrightarrow> latestQueryRef s' = a_cleanQuery a"
  by (auto simp: handleSearch_begin_def Let_def split: if_splits)

lemma resume_word_stale:
  "latestQueryRef s \<noteq> a_cleanQuery a \<Longrightarrow> handleSearch_resume_word a out now s = s"
  by (cases out) (simp_all add: search_catch_def search_finally_def)

lemma resume_sentence_stale:
  "latestQueryRef s \<noteq> a_cleanQuery a \<Longrightarrow> handleSearch_resume_sentence a out now s = s"
  by (cases out) (simp_all add: search_catch_def search_finally_def)

lemma resume_word_current:
  "latestQueryRef s = a_cleanQuery a \<Longrightarrow>
     handleSearch_resume_word a (Inr v) now s =
       s\<lparr>wordData := Some v, sentenceData := None,
         lastLoadTime := Some (now - a_startTime a), loading := False\<rparr>"
  by (simp add: search_finally_def)

lemma resume_sentence_current:
  "latestQueryRef s = a_cleanQuery a \<Longrightarrow>
     handleSearch_resume_sentence a (Inr v) now s =
       s\<lparr>sentenceData := Some v, wordData := None,
         lastLoadTime := Some (now - a_startTime a), loading := False\<rparr>"
  by (simp add: search_finally_def)

lemma resolve_stale:
  assumes "i < length (inflight w)" "inflight w ! i = SearchCall a k"
    "latestQueryRef (ui w) \<noteq> a_cleanQuery a"
  shows "ui (resolve_word i r w) = ui w" "ui (resolve_sentence i q w) = ui w"
  using assms
  by (auto simp: resolve_word_def resolve_sentence_def resume_word_stale resume_sentence_stale
      split: prod.splits)

text \<open>
  C1. \<open>Q1\<close> is dispatched, then a different query \<open>Q2\<close>, and both lookups are
  pending (the queries are the trimmed texts the handlers record in the marker). When
  the lookup of \<open>Q2\<close> returns a result first, that result is displayed and the
  loading flag is cleared, and the handler of \<open>Q1\<close>, resumed afterwards with a result
  or with a failure, leaves the state exactly as it is. The same holds in the other
  order, and in general: a handler resumed while the marker holds another query than
  its own changes nothing of the component's state, whether it runs alone or when the
  provider settles its pending request.
\<close>

theorem stale_result_suppression:
  assumes d1: "handleSearch_begin e1 t1 s0 = (s1, Some a1)"
    and d2: "handleSearch_begin e2 t2 s1 = (s2, Some a2)"
    and ne: "a_cleanQuery a1 \<noteq> a_cleanQuery a2"
  shows
    "(let s3 = handleSearch_resume_word a2 (Inr v) t3 s2 in
        wordData s3 = Some v \<and> sentenceData s3 = None \<and> loading s3 = False \<and>
        handleSearch_resume_word a1 ow t4 s3 = s3 \<and>
        handleSearch_resume_sentence a1 os t4 s3 = s3) \<and>
     (let s3 = handleSearch_resume_sentence a2 (Inr u) t3 s2 in
        sentenceData s3 = Some u \<and> wordData s3 = None \<and> loading s3 = False \<and>
        handleSearch_resume_word a1 ow t4 s3 = s3 \<and>
        handleSearch_resume_sentence a1 os t4 s3 = s3) \<and>
     handleSearch_resume_word a1 ow t4 s2 = s2 \<and>
     handleSearch_resume_sentence a1 os t4 s2 = s2 \<and>
     (\<forall>s. latestQueryRef s \<noteq> a_cleanQuery a1 \<longrightarrow>
        handleSearch_resume_word a1 ow t4 s = s \<and>
        handleSearch_resume_sentence a1 os t4 s = s) \<and>
     (\<forall>w i k r q. i < length (inflight w) \<and> inflight w ! i = SearchCall a1 k \<and>
        latestQueryRef (ui w) \<noteq> a_cleanQuery a1 \<longrightarrow>
        ui (resolve_word i r w) = ui w \<and> ui (resolve_sentence i q w) = ui w)"
proof -
  from d2 have m: "latestQueryRef s2 = a_cleanQuery a2" by (rule begin_sets_marker)
  with ne have st: "latestQueryRef s2 \<noteq> a_cleanQuery a1" by simp
  let ?w = "handleSearch_resume_word a2 (Inr v) t3 s2"
  let ?d = "handleSearch_resume_sentence a2 (Inr u) t3 s2"
  have w: "?w = s2\<lparr>wordData := Some v, sentenceData := None,
         lastLoadTime := Some (t3 - a_startTime a2), loading := False\<rparr>"
    using m by (rule resume_word_current)
  have d: "?d = s2\<lparr>sentenceData := Some u, wordData := None,
         lastLoadTime := Some (t3 - a_startTime a2), loading := False\<rparr>"
    using m by (rule resume_sentence_current)
  have mw: "latestQueryRef ?w \<noteq> a_cleanQuery a1" unfolding w using st by simp
  have md: "latestQueryRef ?d \<noteq> a_cleanQuery a1" unfolding d using st by simp
  have 1: "wordData ?w = Some v \<and> sentenceData ?w = None \<and> loading ?w = False"
    unfolding w by simp
  have 2: "sentenceData ?d = Some u \<and> wordData ?d = None \<and> loading ?d = False"
    unfolding d by simp
  have 3: "handleSearch_resume_word a1 ow t4 ?w = ?w \<and>
           handleSearch_resume_sentence a1 os t4 ?w = ?w"
    using mw by (simp add: resume_word_stale resume_sentence_stale)
  have 4: "handleSearch_resume_word a1 ow t4 ?d = ?d \<and>
           handleSearch_resume_sentence a1 os t4 ?d = ?d"
    using md by (simp add: resume_word_stale resume_sentence_stale)
  have 5: "handleSearch_resume_word a1 ow t4 s2 = s2 \<and>
           handleSearch_resume_sentence a1 os t4 s2 = s2"
    using st by (simp add: resume_word_stale resume_sentence_stale)
  have 6: "\<forall>s. latestQueryRef s \<noteq> a_cleanQuery a1 \<longrightarrow>
        handleSearch_resume_word a1 ow t4 s = s \<and>
        handleSearch_resume_sentence a1 os t4 s = s"
    by (simp add: resume_word_stale resume_sentence_stale)
  have 7: "\<forall>w i k r q. i < length (inflight w) \<and> inflight w ! i = SearchCall a1 k \<and>
        latestQueryRef (ui w) \<noteq> a_cleanQuery a1 \<longrightarrow>
        ui (resolve_word i r w) = ui w \<and> ui (resolve_sentence i q w) = ui w"
    using resolve_stale by blast
  from 1 2 3 4 5 6 7 show ?thesis unfolding Let_def by blast
qed

theorem stale_result_suppression_witness:
  "handleSearch_begin (typed ''cat'') 400 (initial_state [] [] []) =
     (fst (handleSearch_begin (typed ''cat'') 400 (initial_state [] [] [])),
      Some \<lparr>a_cleanQuery = ''cat'', a_mode = WordMode, a_startTime = 400\<rparr>) \<and>
   handleSearch_begin (typed ''dog'') 800
       (fst (handleSearch_begin (typed ''cat'') 400 (initial_state [] [] []))) =
     ((initial_state [] [] [])\<lparr>latestQueryRef := ''dog'', loading := True\<rparr>,
      Some \<lparr>a_cleanQuery = ''dog'', a_mode = WordMode, a_startTime = 800\<rparr>) \<and>
   ''cat'' \<noteq> ''dog'' \<and>
   handleSearch_resume_word \<lparr>a_cleanQuery = ''cat'', a_mode = WordMode, a_startTime = 400\<rparr>
       (Inr cat_result) 1000
       (handleSearch_resume_word \<lparr>a_cleanQuery = ''dog'', a_mode = WordMode, a_startTime = 800\<rparr>
          (Inr dog_result) 900
          ((initial_state [] [] [])\<lparr>latestQueryRef := ''dog'', loading := True\<rparr>)) =
     handleSearch_resume_word \<lparr>a_cleanQuery = ''dog'', a_mode = WordMode, a_startTime = 800\<rparr>
          (Inr dog_result) 900
          ((initial_state [] [] [])\<lparr>latestQueryRef := ''dog'', loading := True\<rparr>) \<and>
   wordData
     (handleSearch_resume_word \<lparr>a_cleanQuery = ''dog'', a_mode = WordMode, a_startTime = 800\<rparr>
          (Inr dog_result) 900
          ((initial_state [] [] [])\<lparr>latestQueryRef := ''dog'', loading := True\<rparr>)) =
     Some dog_result \<and>
   wordData (ui (run [Type ''cat'', Advance 400, Type ''dog'', Advance 400,
       ResolveWord 1 (Parsed dog_result), ResolveWord 0 (Parsed cat_result)]
       (initial_world [] [] []))) = Some dog_result"
proof -
  have 1: "handleSearch_begin (typed ''cat'') 400 (initial_state [] [] []) =
     (fst (handleSearch_begin (typed ''cat'') 400 (initial_state [] [] [])),
      Some \<lparr>a_cleanQuery = ''cat'', a_mode = WordMode, a_startTime = 400\<rparr>)"
    by code_simp
  have 2: "handleSearch_begin (typed ''dog'') 800
       (fst (handleSearch_begin (typed ''cat'') 400 (initial_state [] [] []))) =
     ((initial_state [] [] [])\<lparr>latestQueryRef := ''dog'', loading := True\<rparr>,
      Some \<lparr>a_cleanQuery = ''dog'', a_mode = WordMode, a_startTime = 800\<rparr>)"
    by code_simp
  have 3: "a_cleanQuery \<lparr>a_cleanQuery = ''cat'', a_mode = WordMode, a_startTime = 400\<rparr> \<noteq>
           a_cleanQuery \<lparr>a_cleanQuery = ''dog'', a_mode = WordMode, a_startTime = 800\<rparr>"
    by simp
  have 4: "wordData (ui (run [Type ''cat'', Advance 400, Type ''dog'', Advance 400,
       ResolveWord 1 (Parsed dog_result), ResolveWord 0 (Parsed cat_result)]
       (initial_world [] [] []))) = Some dog_result"
    by code_simp
  from stale_result_suppression [OF 1 2 3, of dog_result 900 "Inr cat_result" 1000] 4
  show ?thesis using 1 2 by (simp add: Let_def)
qed

lemma search_catch_finally_current:
  "latestQueryRef s = q \<Longrightarrow>
     search_finally q (search_catch q s) = s\<lparr>error := Some lookup_error_message, loading := False\<rparr>"
  by (simp add: search_catch_def search_finally_def)

lemma search_catch_finally_stale:
  "latestQueryRef s \<noteq> q \<Longrightarrow> search_finally q (search_catch q s) = s"
  by (simp add: search_catch_def search_finally_def)

text \<open>
  The marker holds the trimmed query, so two dispatches whose texts differ only in the
  white space around them are the same query to it: both handlers are current, and the
  response that arrives last is the one displayed.
\<close>

lemma same_trimmed_query_last_response_wins:
  "wordData (ui (run [Type ''cat'', Advance 400, Type ''cat '', Advance 400,
       ResolveWord 1 (Parsed run_result), ResolveWord 0 (Parsed cat_result)]
       (initial_world [] [] []))) = Some cat_result"
  by code_simp

text \<open>
  C10. A primary lookup fails while its query is still the one in the marker: the
  handler sets the error message and clears the loading flag, and that is all it
  does. The displayed result, \<open>wordData\<close> and \<open>sentenceData\<close>, is what it was.
  This holds for the handler resumed with a failure, and for the pending request
  that the provider rejects or answers with text that does not parse.
\<close>

theorem failed_lookup_keeps_result:
  "(latestQueryRef s = a_cleanQuery a \<longrightarrow>
      handleSearch_resume_word a (Inl e) now s =
        s\<lparr>error := Some lookup_error_message, loading := False\<rparr> \<and>
      handleSearch_resume_sentence a (Inl e) now s =
        s\<lparr>error := Some lookup_error_message, loading := False\<rparr> \<and>
      wordData (handleSearch_resume_word a (Inl e) now s) = wordData s \<and>
      sentenceData (handleSearch_resume_word a (Inl e) now s) = sentenceData s \<and>
      wordData (handleSearch_resume_sentence a (Inl e) now s) = wordData s \<and>
      sentenceData (handleSearch_resume_sentence a (Inl e) now s) = sentenceData s) \<and>
   (i < length (inflight w) \<and> inflight w ! i = SearchCall a k \<and>
    latestQueryRef (ui w) = a_cleanQuery a \<longrightarrow>
      (a_mode a = WordMode \<and> (r = Rejected \<or> r = Malformed) \<longrightarrow>
         ui (resolve_word i r w) =
           (ui w)\<lparr>error := Some lookup_error_message, loading := False\<rparr>) \<and>
      (a_mode a = SentenceMode \<and> (q = Rejected \<or> q = Malformed) \<longrightarrow>
         ui (resolve_sentence i q w) =
           (ui w)\<lparr>error := Some lookup_error_message, loading := False\<rparr>))"
proof (intro conjI impI)
  assume c: "latestQueryRef s = a_cleanQuery a"
  then show w: "handleSearch_resume_word a (Inl e) now s =
        s\<lparr>error := Some lookup_error_message, loading := False\<rparr>"
    by (simp add: search_catch_finally_current)
  from c show d: "handleSearch_resume_sentence a (Inl e) now s =
        s\<lparr>error := Some lookup_error_message, loading := False\<rparr>"
    by (simp add: search_catch_finally_current)
  show "wordData (handleSearch_resume_word a (Inl e) now s) = wordData s"
    "sentenceData (handleSearch_resume_word a (Inl e) now s) = sentenceData s"
    unfolding w by simp_all
  show "wordData (handleSearch_resume_sentence a (Inl e) now s) = wordData s"
    "sentenceData (handleSearch_resume_sentence a (Inl e) now s) = sentenceData s"
    unfolding d by simp_all
next
  assume a: "i < length (inflight w) \<and> inflight w ! i = SearchCall a k \<and>
    latestQueryRef (ui w) = a_cleanQuery a"
    and b: "a_mode a = WordMode \<and> (r = Rejected \<or> r = Malformed)"
  then show "ui (resolve_word i r w) =
           (ui w)\<lparr>error := Some lookup_error_message, loading := False\<rparr>"
    by (auto simp: resolve_word_def search_catch_finally_current)
next
  assume a: "i < length (inflight w) \<and> inflight w ! i = SearchCall a k \<and>
    latestQueryRef (ui w) = a_cleanQuery a"
    and b: "a_mode a = SentenceMode \<and> (q = Rejected \<or> q = Malformed)"
  then show "ui (resolve_sentence i q w) =
           (ui w)\<lparr>error := Some lookup_error_message, loading := False\<rparr>"
    by (auto simp: resolve_sentence_def search_catch_finally_current)
qed

theorem failed_lookup_keeps_result_witness:
  "inflight world_cat_shown_dog_pending =
     [SearchCall \<lparr>a_cleanQuery = ''dog'', a_mode = WordMode, a_startTime = 800\<rparr> ''dog''] \<and>
   latestQueryRef (ui world_cat_shown_dog_pending) = ''dog'' \<and>
   wordData (ui world_cat_shown_dog_pending) = Some cat_result \<and>
   ui (resolve_word 0 Rejected world_cat_shown_dog_pending) =
     (ui world_cat_shown_dog_pending)\<lparr>error := Some lookup_error_message, loading := False\<rparr> \<and>
   wordData (ui (resolve_word 0 Rejected world_cat_shown_dog_pending)) = Some cat_result"
proof -
  have 1: "inflight world_cat_shown_dog_pending =
     [SearchCall \<lparr>a_cleanQuery = ''dog'', a_mode = WordMode, a_startTime = 800\<rparr> ''dog'']"
    by code_simp
  have 2: "latestQueryRef (ui world_cat_shown_dog_pending) = ''dog''"
    by code_simp
  have 3: "wordData (ui world_cat_shown_dog_pending) = Some cat_result"
    by code_simp
  from 1 2
    failed_lookup_keeps_result [of "ui world_cat_shown_dog_pending"
      "\<lparr>a_cleanQuery = ''dog'', a_mode = WordMode, a_startTime = 800\<rparr>" _ _ 0
      world_cat_shown_dog_pending "''dog''" Rejected]
  have 4: "ui (resolve_word 0 Rejected world_cat_shown_dog_pending) =
     (ui world_cat_shown_dog_pending)\<lparr>error := Some lookup_error_message, loading := False\<rparr>"
    by simp
  from 3 4 have 5: "wordData (ui (resolve_word 0 Rejected world_cat_shown_dog_pending)) = Some cat_result"
    by simp
  from 1 2 3 4 5 show ?thesis by simp
qed

lemma begin_same_query:
  assumes "(r_searchMode r = WordMode \<and> r_wordData r = Some d \<and>
            toLowerCase (trim (r_query r)) = word d) \<or>
           (r_searchMode r = SentenceMode \<and> r_sentenceData r = Some d' \<and>
            trim (r_query r) = sentence d')"
  shows "handleSearch_begin r now s =
    ((if trim (r_query r) = [] then s else s\<lparr>latestQueryRef := trim (r_query r)\<rparr>), None)"
proof -
  from assms consider
      (w) "r_searchMode r = WordMode" "r_wordData r = Some d"
        "toLowerCase (trim (r_query r)) = word d"
    | (s) "r_searchMode r = SentenceMode" "r_sentenceData r = Some d'"
        "trim (r_query r) = sentence d'"
    by blast
  then show ?thesis
  proof cases
    case w
    from w(3) have "toLowerCase (word d) = toLowerCase (trim (r_query r))"
      using toLowerCase_idem [of "trim (r_query r)"] by simp
    with w(1,2) show ?thesis by (simp add: handleSearch_begin_def Let_def)
  next
    case s
    then show ?thesis by (simp add: handleSearch_begin_def Let_def)
  qed
qed

text \<open>
  C6, as the code has it. \<open>handleSearch\<close> is called when the normalized query is the
  identity of the displayed result (the word in word mode, the sentence in sentence
  mode): it returns without a lookup, so no request is sent and nothing becomes
  pending, and the only part of the state it writes is the marker of the latest
  dispatched query, which becomes the trimmed query (for an empty query not even
  that).
\<close>

theorem same_query_submit_sets_marker:
  assumes "(r_searchMode r = WordMode \<and> r_wordData r = Some d \<and>
            toLowerCase (trim (r_query r)) = word d) \<or>
           (r_searchMode r = SentenceMode \<and> r_sentenceData r = Some d' \<and>
            trim (r_query r) = sentence d')"
  shows "handleSearch_begin r now s =
           ((if trim (r_query r) = [] then s else s\<lparr>latestQueryRef := trim (r_query r)\<rparr>),
            None) \<and>
         (fst (handleSearch_begin r now s))\<lparr>latestQueryRef := latestQueryRef s\<rparr> = s \<and>
         start_search r w =
           w\<lparr>ui := (if trim (r_query r) = [] then ui w
                    else (ui w)\<lparr>latestQueryRef := trim (r_query r)\<rparr>)\<rparr> \<and>
         requests (start_search r w) = requests w \<and>
         inflight (start_search r w) = inflight w \<and>
         caches (start_search r w) = caches w"
proof -
  note b = begin_same_query [OF assms]
  have 1: "(fst (handleSearch_begin r now s))\<lparr>latestQueryRef := latestQueryRef s\<rparr> = s"
    unfolding b by simp
  have 2: "start_search r w =
           w\<lparr>ui := (if trim (r_query r) = [] then ui w
                    else (ui w)\<lparr>latestQueryRef := trim (r_query r)\<rparr>)\<rparr>"
    unfolding start_search_def b by simp
  have 3: "requests (start_search r w) = requests w \<and> inflight (start_search r w) = inflight w \<and>
     caches (start_search r w) = caches w"
    unfolding 2 by simp
  from b 1 2 3 show ?thesis by simp
qed

text \<open>
  C6 as stated fails. \<open>cat\<close> is displayed, the lookup of \<open>dog\<close> is pending, and
  \<open>cat\<close> is typed again and submitted: no request is sent, but the marker changes from
  \<open>dog\<close> to \<open>cat\<close>. The change shows when the lookup of \<open>dog\<close> returns: its
  result is discarded and the loading flag stays set.
\<close>

theorem same_query_submit_counterexample:
  "searchMode (ui world_cat_retyped) = WordMode \<and>
   wordData (ui world_cat_retyped) = Some cat_result \<and>
   toLowerCase (trim (query (ui world_cat_retyped))) = word cat_result \<and>
   latestQueryRef (ui world_cat_retyped) = ''dog'' \<and>
   latestQueryRef (ui (step Submit world_cat_retyped)) = ''cat'' \<and>
   step Submit world_cat_retyped \<noteq> world_cat_retyped \<and>
   loading (ui (run [Submit, ResolveWord 0 (Parsed dog_result)] world_cat_retyped)) \<and>
   wordData (ui (run [Submit, ResolveWord 0 (Parsed dog_result)] world_cat_retyped)) =
     Some cat_result"
proof -
  have 1: "searchMode (ui world_cat_retyped) = WordMode" by code_simp
  have 2: "wordData (ui world_cat_retyped) = Some cat_result" by code_simp
  have 3: "toLowerCase (trim (query (ui world_cat_retyped))) = word cat_result" by code_simp
  have 4: "latestQueryRef (ui world_cat_retyped) = ''dog''" by code_simp
  have 5: "latestQueryRef (ui (step Submit world_cat_retyped)) = ''cat''" by code_simp
  have 6: "step Submit world_cat_retyped \<noteq> world_cat_retyped"
  proof
    assume "step Submit world_cat_retyped = world_cat_retyped"
    with 4 5 show False by simp
  qed
  have 7: "loading (ui (run [Submit, ResolveWord 0 (Parsed dog_result)] world_cat_retyped))"
    by code_simp
  have 8: "wordData (ui (run [Submit, ResolveWord 0 (Parsed dog_result)] world_cat_retyped)) =
     Some cat_result" by code_simp
  from 1 2 3 4 5 6 7 8 show ?thesis by simp
qed

theorem same_query_submit_sets_marker_witness:
  "r_searchMode (render_of (ui world_cat_retyped)) = WordMode \<and>
   r_wordData (render_of (ui world_cat_retyped)) = Some cat_result \<and>
   toLowerCase (trim (r_query (render_of (ui world_cat_retyped)))) = word cat_result \<and>
   step Submit world_cat_retyped =
     world_cat_retyped\<lparr>ui := (ui world_cat_retyped)\<lparr>latestQueryRef := ''cat''\<rparr>\<rparr> \<and>
   requests (step Submit world_cat_retyped) = requests world_cat_retyped"
proof -
  have 1: "r_searchMode (render_of (ui world_cat_retyped)) = WordMode" by code_simp
  have 2: "r_wordData (render_of (ui world_cat_retyped)) = Some cat_result" by code_simp
  have 3: "toLowerCase (trim (r_query (render_of (ui world_cat_retyped)))) = word cat_result"
    by code_simp
  have 4: "trim (r_query (render_of (ui world_cat_retyped))) = ''cat''" by code_simp
  from 1 2 3
    same_query_submit_sets_marker [of "render_of (ui world_cat_retyped)" cat_result _ _ _
      world_cat_retyped]
  have "start_search (render_of (ui world_cat_retyped)) world_cat_retyped =
     world_cat_retyped\<lparr>ui := (ui world_cat_retyped)\<lparr>latestQueryRef := ''cat''\<rparr>\<rparr> \<and>
     requests (start_search (render_of (ui world_cat_retyped)) world_cat_retyped) =
       requests world_cat_retyped"
    using 4 by simp
  with 1 2 3 show ?thesis by simp
qed

section \<open>The quick lookup\<close>

lemma quick_begin_cases:
  "handleQuickLookup_begin x s = (s, None) \<or>
   (\<exists>c. handleQuickLookup_begin x s = (s\<lparr>isSubLoading := True\<rparr>, Some c))"
  by (simp add: handleQuickLookup_begin_def Let_def)

lemma quick_begin_primary:
  "handleQuickLookup_begin x (set_primary p s) =
     (case handleQuickLookup_begin x s of (s', c) \<Rightarrow> (set_primary p s', c))"
  by (cases p) (simp add: handleQuickLookup_begin_def Let_def set_primary_def)

lemma quick_resume_primary:
  "handleQuickLookup_resume out (set_primary p s) = set_primary p (handleQuickLookup_resume out s)"
  by (cases p; cases out) (simp_all add: set_primary_def)

lemma quick_resume_frame:
  "(handleQuickLookup_resume out s)\<lparr>selectedDetail := selectedDetail s,
      isSubLoading := isSubLoading s\<rparr> = s"
  by (cases out) simp_all

lemma quick_begin_frame:
  "(fst (handleQuickLookup_begin x s))\<lparr>isSubLoading := isSubLoading s\<rparr> = s"
  by (simp add: handleQuickLookup_begin_def Let_def)

lemma start_quick_frame:
  "(ui (start_quick x w))\<lparr>selectedDetail := selectedDetail (ui w),
      isSubLoading := isSubLoading (ui w)\<rparr> = ui w"
  by (auto simp: start_quick_def handleQuickLookup_begin_def Let_def split: cached.splits)

lemma resolve_quick_frame:
  assumes "i < length (inflight w)" "inflight w ! i = QuickCall k"
  shows "(ui (resolve_word i r w))\<lparr>selectedDetail := selectedDetail (ui w),
      isSubLoading := isSubLoading (ui w)\<rparr> = ui w"
  using assms by (cases r) (simp_all add: resolve_word_def)

text \<open>
  C9. \<open>handleQuickLookup\<close> writes its own loading flag before the await, and after
  it the detail slot (on success only) and its loading flag. It leaves the marker,
  the primary loading flag, the displayed result and the error as they are, and does
  not read them: run on a state where they hold other values, it does the same. No
  other part of the component's state changes either, also when the quick lookup runs
  in the event loop. On failure the state is the old one with the quick lookup's
  loading flag cleared, and the caches are unchanged.
\<close>

theorem quick_lookup_independent:
  "(handleQuickLookup_begin x s = (s, None) \<or>
    (\<exists>c. handleQuickLookup_begin x s = (s\<lparr>isSubLoading := True\<rparr>, Some c))) \<and>
   handleQuickLookup_resume (Inr v) s =
     s\<lparr>selectedDetail := Some (WordItem v), isSubLoading := False\<rparr> \<and>
   handleQuickLookup_resume (Inl e) s = s\<lparr>isSubLoading := False\<rparr> \<and>
   primary (fst (handleQuickLookup_begin x s)) = primary s \<and>
   primary (handleQuickLookup_resume out s) = primary s \<and>
   handleQuickLookup_begin x (set_primary p s) =
     (case handleQuickLookup_begin x s of (s', c) \<Rightarrow> (set_primary p s', c)) \<and>
   handleQuickLookup_resume out (set_primary p s) =
     set_primary p (handleQuickLookup_resume out s) \<and>
   (ui (start_quick x w))\<lparr>selectedDetail := selectedDetail (ui w),
      isSubLoading := isSubLoading (ui w)\<rparr> = ui w \<and>
   (i < length (inflight w) \<and> inflight w ! i = QuickCall k \<longrightarrow>
      (ui (resolve_word i r w))\<lparr>selectedDetail := selectedDetail (ui w),
         isSubLoading := isSubLoading (ui w)\<rparr> = ui w \<and>
      (r = Rejected \<or> r = Malformed \<longrightarrow>
         ui (resolve_word i r w) = (ui w)\<lparr>isSubLoading := False\<rparr> \<and>
         caches (resolve_word i r w) = caches w))"
proof (intro conjI impI)
  show "handleQuickLookup_begin x s = (s, None) \<or>
    (\<exists>c. handleQuickLookup_begin x s = (s\<lparr>isSubLoading := True\<rparr>, Some c))"
    by (rule quick_begin_cases)
  show "primary (fst (handleQuickLookup_begin x s)) = primary s"
    by (simp add: primary_def handleQuickLookup_begin_def Let_def)
  show "primary (handleQuickLookup_resume out s) = primary s"
    by (cases out) (simp_all add: primary_def)
  show "handleQuickLookup_begin x (set_primary p s) =
     (case handleQuickLookup_begin x s of (s', c) \<Rightarrow> (set_primary p s', c))"
    by (rule quick_begin_primary)
  show "handleQuickLookup_resume out (set_primary p s) =
     set_primary p (handleQuickLookup_resume out s)"
    by (rule quick_resume_primary)
  show "(ui (start_quick x w))\<lparr>selectedDetail := selectedDetail (ui w),
      isSubLoading := isSubLoading (ui w)\<rparr> = ui w"
    by (rule start_quick_frame)
next
  assume a: "i < length (inflight w) \<and> inflight w ! i = QuickCall k"
  then show "(ui (resolve_word i r w))\<lparr>selectedDetail := selectedDetail (ui w),
         isSubLoading := isSubLoading (ui w)\<rparr> = ui w"
    by (simp add: resolve_quick_frame)
  assume f: "r = Rejected \<or> r = Malformed"
  with a show "ui (resolve_word i r w) = (ui w)\<lparr>isSubLoading := False\<rparr>"
    by (auto simp: resolve_word_def)
  from a f show "caches (resolve_word i r w) = caches w"
    by (auto simp: resolve_word_def)
qed simp_all

theorem quick_lookup_independent_witness:
  "1 < length (inflight world_quick_pending) \<and>
   inflight world_quick_pending ! 1 = QuickCall ''run'' \<and>
   isSubLoading (ui world_quick_pending) \<and>
   primary (ui world_quick_pending) = primary (ui world_cat_shown_dog_pending) \<and>
   ui (resolve_word 1 Rejected world_quick_pending) =
     (ui world_quick_pending)\<lparr>isSubLoading := False\<rparr> \<and>
   caches (resolve_word 1 Rejected world_quick_pending) = caches world_quick_pending \<and>
   primary (ui (resolve_word 1 (Parsed run_result) world_quick_pending)) =
     primary (ui world_cat_shown_dog_pending) \<and>
   selectedDetail (ui (resolve_word 1 (Parsed run_result) world_quick_pending)) =
     Some (WordItem run_result)"
proof -
  have 1: "1 < length (inflight world_quick_pending)" by code_simp
  have 2: "inflight world_quick_pending ! 1 = QuickCall ''run''" by code_simp
  have 3: "isSubLoading (ui world_quick_pending)" by code_simp
  have 4: "primary (ui world_quick_pending) = primary (ui world_cat_shown_dog_pending)"
    by code_simp
  note t = quick_lookup_independent [where i = 1 and w = world_quick_pending and k = "''run''"]
  from 1 2 t [where r = Rejected]
  have 5: "ui (resolve_word 1 Rejected world_quick_pending) =
     (ui world_quick_pending)\<lparr>isSubLoading := False\<rparr>"
    and 6: "caches (resolve_word 1 Rejected world_quick_pending) = caches world_quick_pending"
    by simp_all
  from 1 2 t [where r = "Parsed run_result"]
  have 7: "(ui (resolve_word 1 (Parsed run_result) world_quick_pending))
      \<lparr>selectedDetail := selectedDetail (ui world_quick_pending),
        isSubLoading := isSubLoading (ui world_quick_pending)\<rparr> = ui world_quick_pending"
    by simp
  have "primary (ui (resolve_word 1 (Parsed run_result) world_quick_pending)) =
      primary ((ui (resolve_word 1 (Parsed run_result) world_quick_pending))
      \<lparr>selectedDetail := selectedDetail (ui world_quick_pending),
        isSubLoading := isSubLoading (ui world_quick_pending)\<rparr>)"
    by (simp add: primary_def)
  with 7 4 have 8: "primary (ui (resolve_word 1 (Parsed run_result) world_quick_pending)) =
     primary (ui world_cat_shown_dog_pending)" by simp
  have 9: "selectedDetail (ui (resolve_word 1 (Parsed run_result) world_quick_pending)) =
     Some (WordItem run_result)" by code_simp
  from 1 2 3 4 5 6 8 9 show ?thesis by simp
qed

section \<open>The debounce effect\<close>

lemma type_empty_effect:
  assumes "length (trim q) = 0" "q \<noteq> query (ui w)"
  shows "ui (step (Type q) w) =
           (ui w)\<lparr>query := q, wordData := None, sentenceData := None, lastLoadTime := None\<rparr>"
    "requests (step (Type q) w) = requests w" "inflight (step (Type q) w) = inflight w"
    "caches (step (Type q) w) = caches w" "clock (step (Type q) w) = clock w"
  using assms
  by (auto simp: commit_def deps_def debounce_effect_def effect_cleanup_def clearTimeout_def Let_def
      split: option.splits)

text \<open>
  C4, at the point where the code departs from it. When the query is edited to a text
  that is empty after trimming, the same event clears the displayed result, sends no
  request and does not wait (the clock stands still), but the error is left as it
  was. \<open>clearSearch\<close>, the other way of emptying the query, does clear it.
\<close>

theorem empty_query_keeps_error:
  "length (trim q) = 0 \<and> q \<noteq> query (ui w) \<longrightarrow>
     wordData (ui (step (Type q) w)) = None \<and>
     sentenceData (ui (step (Type q) w)) = None \<and>
     requests (step (Type q) w) = requests w \<and>
     clock (step (Type q) w) = clock w \<and>
     error (ui (step (Type q) w)) = error (ui w) \<and>
     error (ui (step ClearSearch w)) = None"
proof
  assume a: "length (trim q) = 0 \<and> q \<noteq> query (ui w)"
  have c: "error (ui (step ClearSearch w)) = None"
    by (auto simp: commit_def deps_def debounce_effect_def effect_cleanup_def clearTimeout_def
        clearSearch_def setTimeout_def Let_def split: option.splits)
  from a type_empty_effect [of q w] c
  show "wordData (ui (step (Type q) w)) = None \<and>
     sentenceData (ui (step (Type q) w)) = None \<and>
     requests (step (Type q) w) = requests w \<and>
     clock (step (Type q) w) = clock w \<and>
     error (ui (step (Type q) w)) = error (ui w) \<and>
     error (ui (step ClearSearch w)) = None"
    by simp
qed

theorem empty_query_keeps_error_witness:
  "length (trim []) = 0 \<and> [] \<noteq> query (ui world_failed) \<and>
   error (ui world_failed) = Some lookup_error_message \<and>
   error (ui (step (Type []) world_failed)) = Some lookup_error_message \<and>
   wordData (ui (step (Type []) world_failed)) = None \<and>
   error (ui (step ClearSearch world_failed)) = None"
proof -
  have 1: "length (trim []) = 0" by code_simp
  have 2: "[] \<noteq> query (ui world_failed)" by code_simp
  have 3: "error (ui world_failed) = Some lookup_error_message" by code_simp
  from 1 2 3 empty_query_keeps_error [of "[]" world_failed]
  show ?thesis by simp
qed

lemma tidy_cases:
  "tidy w \<Longrightarrow> timers w = [] \<or> (\<exists>t. timers w = [t] \<and> debounceTimerRef (ui w) = Some (t_id t) \<and> cleanup w)"
  by (auto simp: tidy_def split: list.splits)

lemma tidy_cleanup_clears:
  assumes "tidy w"
  shows "timers (if cleanup w then effect_cleanup w else w) = []"
  using tidy_cases [OF assms]
  by (auto simp: effect_cleanup_def clearTimeout_def split: option.splits)

lemma cleanup_frame:
  "(if cleanup w then effect_cleanup w else w) = w\<lparr>timers := timers (if cleanup w then effect_cleanup w else w)\<rparr>"
  by (auto simp: effect_cleanup_def clearTimeout_def split: option.splits)

lemma debounce_effect_no_timers:
  assumes "timers w = []"
  shows "debounce_effect w =
    (if currentView (ui w) = SearchView \<and> 2 \<le> length (trim (query (ui w))) then
       w\<lparr>ui := (ui w)\<lparr>debounceTimerRef := Some (next_timer w)\<rparr>,
         timers := [\<lparr>t_id = next_timer w, t_due = clock w + 400, t_render = render_of (ui w)\<rparr>],
         next_timer := Suc (next_timer w), cleanup := True\<rparr>
     else if length (trim (query (ui w))) = 0 then
       w\<lparr>ui := (ui w)\<lparr>wordData := None, sentenceData := None, lastLoadTime := None\<rparr>,
         cleanup := False\<rparr>
     else w\<lparr>cleanup := False\<rparr>)"
  using assms
  by (auto simp: debounce_effect_def Let_def clearTimeout_def setTimeout_def split: option.splits)

lemma commit_changed:
  assumes t: "tidy w" and d: "deps s' \<noteq> deps (ui w)"
    and r: "debounceTimerRef s' = debounceTimerRef (ui w)"
  shows "commit s' w =
    (if currentView s' = SearchView \<and> 2 \<le> length (trim (query s')) then
       w\<lparr>ui := s'\<lparr>debounceTimerRef := Some (next_timer w)\<rparr>,
         timers := [\<lparr>t_id = next_timer w, t_due = clock w + 400, t_render = render_of s'\<rparr>],
         next_timer := Suc (next_timer w), cleanup := True\<rparr>
     else if length (trim (query s')) = 0 then
       w\<lparr>ui := s'\<lparr>wordData := None, sentenceData := None, lastLoadTime := None\<rparr>,
         timers := [], cleanup := False\<rparr>
     else w\<lparr>ui := s', timers := [], cleanup := False\<rparr>)"
proof -
  let ?w1 = "w\<lparr>ui := s'\<rparr>"
  let ?w2 = "if cleanup ?w1 then effect_cleanup ?w1 else ?w1"
  have e: "timers ?w2 = []"
    using tidy_cases [OF t] r
    by (auto simp: effect_cleanup_def clearTimeout_def split: option.splits)
  have f: "?w2 = ?w1\<lparr>timers := []\<rparr>"
    using cleanup_frame [of ?w1] e by simp
  have c: "commit s' w = debounce_effect ?w2" using d by (simp add: commit_def Let_def)
  have "timers (?w1\<lparr>timers := []\<rparr>) = []" by simp
  note debounce_effect_no_timers [OF this]
  then show ?thesis unfolding c f by simp
qed

lemma handleSearch_begin_cases:
  "handleSearch_begin r now s =
     (if trim (r_query r) = [] then (s, None)
      else if same_as_displayed (r_searchMode r) (r_wordData r) (r_sentenceData r)
                (trim (r_query r))
      then (s\<lparr>latestQueryRef := trim (r_query r)\<rparr>, None)
      else (s\<lparr>latestQueryRef := trim (r_query r), loading := True, error := None\<rparr>,
            Some \<lparr>a_cleanQuery = trim (r_query r), a_mode = r_searchMode r,
                  a_startTime = now\<rparr>))"
  by (cases "r_searchMode r")
     (auto simp: handleSearch_begin_def same_as_displayed_def Let_def split: option.splits)

lemma resume_word_ref:
  "debounceTimerRef (handleSearch_resume_word a out now s) = debounceTimerRef s \<and>
   deps (handleSearch_resume_word a out now s) = deps s"
  by (cases out) (simp_all add: search_finally_def search_catch_def deps_def)

lemma resume_sentence_ref:
  "debounceTimerRef (handleSearch_resume_sentence a out now s) = debounceTimerRef s \<and>
   deps (handleSearch_resume_sentence a out now s) = deps s"
  by (cases out) (simp_all add: search_finally_def search_catch_def deps_def)

lemma quick_resume_ref:
  "debounceTimerRef (handleQuickLookup_resume out s) = debounceTimerRef s \<and>
   deps (handleQuickLookup_resume out s) = deps s"
  by (cases out) (simp_all add: deps_def)

lemma begin_ref:
  "debounceTimerRef (fst (handleSearch_begin r now s)) = debounceTimerRef s \<and>
   deps (fst (handleSearch_begin r now s)) = deps s"
  by (simp add: handleSearch_begin_cases deps_def)

lemma start_search_frame:
  "timers (start_search r w) = timers w \<and> next_timer (start_search r w) = next_timer w \<and>
   cleanup (start_search r w) = cleanup w \<and> clock (start_search r w) = clock w \<and>
   caches (start_search r w) = caches w \<and>
   debounceTimerRef (ui (start_search r w)) = debounceTimerRef (ui w) \<and>
   deps (ui (start_search r w)) = deps (ui w)"
proof -
  obtain s1 aw where b: "handleSearch_begin r (clock w) (ui w) = (s1, aw)"
    by (cases "handleSearch_begin r (clock w) (ui w)")
  from begin_ref [of r "clock w" "ui w"] b
  have s1: "debounceTimerRef s1 = debounceTimerRef (ui w)" "deps s1 = deps (ui w)" by simp_all
  show ?thesis
    unfolding start_search_def b
    using s1
    by (auto simp: resume_word_ref resume_sentence_ref
        simp del: handleSearch_resume_word.simps handleSearch_resume_sentence.simps
        split: option.splits mode.splits cached.splits)
qed

lemma start_search_requests:
  "requests (start_search r w) =
     requests w @
       (if trim (r_query r) = [] \<or>
           same_as_displayed (r_searchMode r) (r_wordData r) (r_sentenceData r)
             (trim (r_query r)) \<or>
           memoized (caches w) (r_searchMode r) (r_query r)
        then []
        else [(r_searchMode r, normalize (r_searchMode r) (r_query r))])"
  by (cases "r_searchMode r")
     (auto simp: start_search_def handleSearch_begin_cases lookupWord_begin_def
        lookupSentence_begin_def trim_idem Let_def split: option.splits)

lemma advance_idle:
  assumes "\<forall>t\<in>set (timers w). clock w + d < t_due t"
  shows "advance d w = w\<lparr>clock := clock w + d\<rparr>"
proof -
  from assms have 1: "filter (\<lambda>t. t_due t \<le> clock w + d) (timers w) = []"
    by (auto simp: filter_empty_conv)
  from assms have 2: "filter (\<lambda>t. \<not> t_due t \<le> clock w + d) (timers w) = timers w"
    by (auto simp: filter_id_conv)
  show ?thesis by (simp add: advance_def Let_def 1 2)
qed

lemma advance_fire:
  assumes "timers w = [t]" "t_due t \<le> clock w + d"
  shows "advance d w = start_search (t_render t) (w\<lparr>clock := clock w + d, timers := []\<rparr>)"
  using assms by (simp add: advance_def Let_def)

lemma tidy_frame:
  assumes "tidy w" "timers w' = timers w" "cleanup w' = cleanup w"
    "debounceTimerRef (ui w') = debounceTimerRef (ui w)"
  shows "tidy w'"
  using assms by (auto simp: tidy_def split: list.splits)

lemma tidy_no_timers: "timers w = [] \<Longrightarrow> tidy w"
  by (simp add: tidy_def)

lemma tidy_start_search: "tidy w \<Longrightarrow> tidy (start_search r w)"
  using start_search_frame [of r w] by (auto intro: tidy_frame)

lemma tidy_advance:
  assumes "tidy w"
  shows "tidy (advance d w)"
proof -
  from tidy_cases [OF assms] consider
      (none) "timers w = []"
    | (idle) t where "timers w = [t]" "clock w + d < t_due t"
    | (fire) t where "timers w = [t]" "t_due t \<le> clock w + d"
    by force
  then show ?thesis
  proof cases
    case none
    then have "advance d w = w\<lparr>clock := clock w + d\<rparr>" by (simp add: advance_idle)
    with assms show ?thesis by (auto simp: tidy_def split: list.splits)
  next
    case idle
    then have "advance d w = w\<lparr>clock := clock w + d\<rparr>" by (simp add: advance_idle)
    with assms show ?thesis by (auto simp: tidy_def split: list.splits)
  next
    case fire
    then have "advance d w = start_search (t_render t) (w\<lparr>clock := clock w + d, timers := []\<rparr>)"
      by (rule advance_fire)
    moreover have "tidy (w\<lparr>clock := clock w + d, timers := []\<rparr>)" by (simp add: tidy_def)
    ultimately show ?thesis by (simp add: tidy_start_search)
  qed
qed

lemma tidy_commit:
  assumes t: "tidy w" and r: "debounceTimerRef s' = debounceTimerRef (ui w)"
  shows "tidy (commit s' w)"
proof (cases "deps s' = deps (ui w)")
  case True
  then have "commit s' w = w\<lparr>ui := s'\<rparr>" by (simp add: commit_def Let_def)
  with t r show ?thesis by (auto simp: tidy_def split: list.splits)
next
  case False
  show ?thesis unfolding commit_changed [OF t False r] by (simp add: tidy_def)
qed

lemma toggle_ref: "debounceTimerRef (handleToggleSave now i s) = debounceTimerRef s"
  by (induction now i s rule: handleToggleSave.induct) simp_all

lemma tidy_start_quick: "tidy w \<Longrightarrow> tidy (start_quick x w)"
  by (auto simp: start_quick_def handleQuickLookup_begin_def Let_def tidy_def
      split: cached.splits list.splits)

lemma tidy_resolve_word: "tidy w \<Longrightarrow> tidy (resolve_word i r w)"
  by (auto simp: resolve_word_def tidy_def resume_word_ref quick_resume_ref
      simp del: handleSearch_resume_word.simps handleQuickLookup_resume.simps
      split: call.splits prod.splits list.splits)

lemma tidy_resolve_sentence: "tidy w \<Longrightarrow> tidy (resolve_sentence i r w)"
  by (auto simp: resolve_sentence_def tidy_def resume_sentence_ref
      simp del: handleSearch_resume_sentence.simps
      split: call.splits prod.splits list.splits)

lemma tidy_step: "tidy w \<Longrightarrow> tidy (step e w)"
proof (cases e)
  case (ToggleSave i)
  assume "tidy w"
  then show ?thesis unfolding ToggleSave by (auto simp: tidy_def toggle_ref split: list.splits)
qed (simp_all add: tidy_commit clearSearch_def tidy_start_search tidy_start_quick tidy_advance
      tidy_resolve_word tidy_resolve_sentence)

lemma tidy_run: "tidy w \<Longrightarrow> tidy (run es w)"
  by (induction es arbitrary: w) (simp_all add: tidy_step)

lemma tidy_initial: "tidy (initial_world ws ss url)"
  by (simp add: initial_world_def debounce_effect_def Let_def initial_state_def trim_def tidy_def)

lemma unchanged_lookups_refl: "unchanged_lookups w w"
  by (simp add: unchanged_lookups_def)

lemma unchanged_lookups_trans:
  "unchanged_lookups w w' \<Longrightarrow> unchanged_lookups w' w'' \<Longrightarrow> unchanged_lookups w w''"
  by (auto simp: unchanged_lookups_def)

lemma type_changed:
  assumes t: "tidy w" and q: "q \<noteq> query (ui w)"
  shows "step (Type q) w =
    (if currentView (ui w) = SearchView \<and> 2 \<le> length (trim q) then
       w\<lparr>ui := (ui w)\<lparr>query := q, debounceTimerRef := Some (next_timer w)\<rparr>,
         timers := [\<lparr>t_id = next_timer w, t_due = clock w + 400,
                     t_render = render_of ((ui w)\<lparr>query := q\<rparr>)\<rparr>],
         next_timer := Suc (next_timer w), cleanup := True\<rparr>
     else if length (trim q) = 0 then
       w\<lparr>ui := (ui w)\<lparr>query := q, wordData := None, sentenceData := None,
                      lastLoadTime := None\<rparr>,
         timers := [], cleanup := False\<rparr>
     else w\<lparr>ui := (ui w)\<lparr>query := q\<rparr>, timers := [], cleanup := False\<rparr>)"
proof -
  have d: "deps ((ui w)\<lparr>query := q\<rparr>) \<noteq> deps (ui w)" using q by (simp add: deps_def)
  have r: "debounceTimerRef ((ui w)\<lparr>query := q\<rparr>) = debounceTimerRef (ui w)" by simp
  show ?thesis using commit_changed [OF t d r] by simp
qed

lemma pair_quiet:
  assumes t: "tidy w" and q: "q \<noteq> query (ui w)" and d: "d < 400"
  shows "tidy (step (Advance d) (step (Type q) w)) \<and>
         unchanged_lookups w (step (Advance d) (step (Type q) w)) \<and>
         query (ui (step (Advance d) (step (Type q) w))) = q"
proof -
  let ?w1 = "step (Type q) w"
  have t1: "tidy ?w1" using t by (rule tidy_step)
  have c1: "clock ?w1 = clock w" unfolding type_changed [OF t q] by simp
  have due: "\<forall>x\<in>set (timers ?w1). clock ?w1 + d < t_due x"
    unfolding type_changed [OF t q] using d by simp
  have a: "step (Advance d) ?w1 = ?w1\<lparr>clock := clock ?w1 + d\<rparr>"
    using advance_idle [OF due] by simp
  have u: "unchanged_lookups w ?w1 \<and> query (ui ?w1) = q"
    unfolding type_changed [OF t q] by (simp add: unchanged_lookups_def)
  have "tidy (?w1\<lparr>clock := clock ?w1 + d\<rparr>)"
    using t1 by (rule tidy_frame) simp_all
  moreover have "unchanged_lookups w (?w1\<lparr>clock := clock ?w1 + d\<rparr>)"
    using u by (simp add: unchanged_lookups_def)
  moreover have "query (ui (?w1\<lparr>clock := clock ?w1 + d\<rparr>)) = q" using u by simp
  ultimately show ?thesis unfolding a by blast
qed

lemma burst_quiet:
  assumes "tidy w" "changes (query (ui w)) (map fst ks)" "list_all (\<lambda>(q, d). d < 400) ks"
  shows "tidy (run (burst ks) w) \<and> unchanged_lookups w (run (burst ks) w) \<and>
         query (ui (run (burst ks) w)) = last (query (ui w) # map fst ks)"
  using assms
proof (induction ks arbitrary: w)
  case Nil
  then show ?case by (simp add: unchanged_lookups_refl)
next
  case (Cons k ks)
  obtain q d where k: "k = (q, d)" by (cases k)
  let ?w' = "step (Advance d) (step (Type q) w)"
  from Cons.prems k have q: "q \<noteq> query (ui w)" and d: "d < 400"
    and ch: "changes q (map fst ks)" and la: "list_all (\<lambda>(q, d). d < 400) ks"
    by simp_all
  from pair_quiet [OF Cons.prems(1) q d]
  have p: "tidy ?w'" "unchanged_lookups w ?w'" "query (ui ?w') = q" by simp_all
  from ch p(3) have ch': "changes (query (ui ?w')) (map fst ks)" by simp
  from Cons.IH [OF p(1) ch' la]
  have ih: "tidy (run (burst ks) ?w')" "unchanged_lookups ?w' (run (burst ks) ?w')"
    "query (ui (run (burst ks) ?w')) = last (query (ui ?w') # map fst ks)" by simp_all
  have r: "run (burst (k # ks)) w = run (burst ks) ?w'" unfolding k by simp
  show ?case
    unfolding r
    using ih p unchanged_lookups_trans [OF p(2) ih(2)] by (simp add: k)
qed

lemma final_fire:
  assumes t: "tidy w" and q: "q \<noteq> query (ui w)" and v: "currentView (ui w) = SearchView"
    and l: "2 \<le> length (trim q)" and d: "400 \<le> d"
  shows "run [Type q, Advance d] w =
    start_search (render_of ((ui w)\<lparr>query := q\<rparr>))
      (w\<lparr>ui := (ui w)\<lparr>query := q, debounceTimerRef := Some (next_timer w)\<rparr>,
         next_timer := Suc (next_timer w), cleanup := True,
         clock := clock w + d, timers := []\<rparr>)"
proof -
  let ?t = "\<lparr>t_id = next_timer w, t_due = clock w + 400,
             t_render = render_of ((ui w)\<lparr>query := q\<rparr>)\<rparr>"
  let ?w1 = "w\<lparr>ui := (ui w)\<lparr>query := q, debounceTimerRef := Some (next_timer w)\<rparr>,
         timers := [?t], next_timer := Suc (next_timer w), cleanup := True\<rparr>"
  have 1: "step (Type q) w = ?w1" using type_changed [OF t q] v l by simp
  have 2: "timers ?w1 = [?t]" by simp
  have 3: "t_due ?t \<le> clock ?w1 + d" using d by simp
  have "advance d ?w1 = start_search (t_render ?t) (?w1\<lparr>clock := clock ?w1 + d, timers := []\<rparr>)"
    using 2 3 by (rule advance_fire)
  then show ?thesis using 1 by simp
qed

lemma short_query_silent:
  assumes t: "tidy w" and q: "q \<noteq> query (ui w)" and l: "length (trim q) = 1"
  shows "requests (run [Type q, Advance d] w) = requests w \<and>
         timers (run [Type q, Advance d] w) = []"
proof -
  let ?w1 = "w\<lparr>ui := (ui w)\<lparr>query := q\<rparr>, timers := [], cleanup := False\<rparr>"
  have 1: "step (Type q) w = ?w1"
    using type_changed [OF t q] l by simp
  have a: "advance d ?w1 = ?w1\<lparr>clock := clock ?w1 + d\<rparr>"
    by (rule advance_idle) simp
  have r: "run [Type q, Advance d] w = advance d (step (Type q) w)" by simp
  show ?thesis by (simp only: r 1 a) simp
qed

lemma same_as_displayed_cleared:
  assumes "\<not> same_as_displayed m wd sd c" "wd' = wd \<or> wd' = None" "sd' = sd \<or> sd' = None"
  shows "\<not> same_as_displayed m wd' sd' c"
  using assms by (auto simp: same_as_displayed_def)

lemma burst_then_fire:
  assumes t: "tidy w"
    and ch: "changes (query (ui w)) (map fst ks @ [qf])"
    and gaps: "list_all (\<lambda>(q, d). d < 400) ks"
    and d: "400 \<le> df" and v: "currentView (ui w) = SearchView"
    and l: "2 \<le> length (trim qf)"
  shows "requests (run (burst ks @ [Type qf, Advance df]) w) =
     requests w @
       (if same_as_displayed (searchMode (ui w)) (wordData (ui (run (burst ks) w)))
             (sentenceData (ui (run (burst ks) w))) (trim qf) \<or>
           memoized (caches w) (searchMode (ui w)) qf
        then []
        else [(searchMode (ui w), normalize (searchMode (ui w)) qf)])"
    and "unchanged_lookups w (run (burst ks) w)"
proof -
  let ?w' = "run (burst ks) w"
  have ch1: "changes (query (ui w)) (map fst ks)"
    and ch2: "qf \<noteq> last (query (ui w) # map fst ks)"
    using ch
  proof (induction ks arbitrary: w)
    case Nil
    { case 1 show ?case by simp }
    { case 2 then show ?case by simp }
  next
    case (Cons k ks)
    { case 1
      then have "fst k \<noteq> query (ui w)" and "changes (fst k) (map fst ks @ [qf])" by simp_all
      moreover have "query (ui (w\<lparr>ui := (ui w)\<lparr>query := fst k\<rparr>\<rparr>)) = fst k" by simp
      ultimately show ?case
        using Cons.IH(1) [of "w\<lparr>ui := (ui w)\<lparr>query := fst k\<rparr>\<rparr>"] by simp }
    { case 2
      then have "changes (fst k) (map fst ks @ [qf])" by simp
      moreover have "query (ui (w\<lparr>ui := (ui w)\<lparr>query := fst k\<rparr>\<rparr>)) = fst k" by simp
      ultimately show ?case
        using Cons.IH(2) [of "w\<lparr>ui := (ui w)\<lparr>query := fst k\<rparr>\<rparr>"] by simp }
  qed
  from burst_quiet [OF t ch1 gaps]
  have b: "tidy ?w'" "unchanged_lookups w ?w'"
    "query (ui ?w') = last (query (ui w) # map fst ks)" by simp_all
  from b(2) show "unchanged_lookups w (run (burst ks) w)" .
  from b(3) ch2 have q: "qf \<noteq> query (ui ?w')" by simp
  from b(2) v have v': "currentView (ui ?w') = SearchView" by (simp add: unchanged_lookups_def)
  have r: "run (burst ks @ [Type qf, Advance df]) w = run [Type qf, Advance df] ?w'"
    by (induction ks arbitrary: w) auto
  have m: "searchMode (ui ?w') = searchMode (ui w)" "caches ?w' = caches w"
    "requests ?w' = requests w"
    using b(2) by (simp_all add: unchanged_lookups_def)
  show "requests (run (burst ks @ [Type qf, Advance df]) w) =
     requests w @
       (if same_as_displayed (searchMode (ui w)) (wordData (ui (run (burst ks) w)))
             (sentenceData (ui (run (burst ks) w))) (trim qf) \<or>
           memoized (caches w) (searchMode (ui w)) qf
        then []
        else [(searchMode (ui w), normalize (searchMode (ui w)) qf)])"
    unfolding r final_fire [OF b(1) q v' l d] start_search_requests
    using l m by (auto simp: render_of_def)
qed

lemma change_timers:
  assumes t: "tidy w" and d: "deps s' \<noteq> deps (ui w)"
    and r: "debounceTimerRef s' = debounceTimerRef (ui w)"
  shows "timers (commit s' w) = scheduled s' w"
  unfolding commit_changed [OF t d r] by (simp add: scheduled_def)

text \<open>
  C5. In a world where at most one debounce timer is pending (every world the event
  loop reaches from the initial one), a change of the query, of the mode or of the view
  cancels the pending timer, and the timers pending afterwards are: one timer for
  \<open>handleSearch\<close> of the new render, due 400 after the change, when the view is the
  search view and the trimmed query has at least two characters, and none otherwise.
  Time passing calls \<open>handleSearch\<close> only for a timer that is due, and does nothing
  while none is. So a query of trimmed length 1 sends no request however long one
  waits. A burst of keystrokes, each changing the text and each less than 400 after
  the one before, then a wait of 400 or more, sends at most one request, for the final
  query; it sends exactly that one when the final query is neither the displayed
  result nor in the cache.
\<close>

theorem debounce_trigger_conditions:
  assumes t: "tidy w"
  shows
    "(q \<noteq> query (ui w) \<longrightarrow>
        timers (step (Type q) w) = scheduled ((ui w)\<lparr>query := q\<rparr>) w) \<and>
     (m \<noteq> searchMode (ui w) \<longrightarrow>
        timers (step (SetSearchMode m) w) = scheduled ((ui w)\<lparr>searchMode := m\<rparr>) w) \<and>
     (v \<noteq> currentView (ui w) \<longrightarrow>
        timers (step (SetCurrentView v) w) = scheduled ((ui w)\<lparr>currentView := v\<rparr>) w) \<and>
     ((\<forall>x\<in>set (timers w). clock w + d < t_due x) \<longrightarrow>
        step (Advance d) w = w\<lparr>clock := clock w + d\<rparr>) \<and>
     (timers w = [x] \<and> t_due x \<le> clock w + d \<longrightarrow>
        step (Advance d) w =
          start_search (t_render x) (w\<lparr>clock := clock w + d, timers := []\<rparr>)) \<and>
     (q \<noteq> query (ui w) \<and> length (trim q) = 1 \<longrightarrow>
        requests (run [Type q, Advance d] w) = requests w \<and>
        timers (run [Type q, Advance d] w) = []) \<and>
     (changes (query (ui w)) (map fst ks @ [qf]) \<and> list_all (\<lambda>(q, d). d < 400) ks \<and>
      400 \<le> df \<and> currentView (ui w) = SearchView \<and> 2 \<le> length (trim qf) \<longrightarrow>
        (requests (run (burst ks @ [Type qf, Advance df]) w) = requests w \<or>
         requests (run (burst ks @ [Type qf, Advance df]) w) =
           requests w @ [(searchMode (ui w), normalize (searchMode (ui w)) qf)]) \<and>
        (\<not> same_as_displayed (searchMode (ui w)) (wordData (ui w)) (sentenceData (ui w))
              (trim qf) \<and>
         \<not> memoized (caches w) (searchMode (ui w)) qf \<longrightarrow>
           requests (run (burst ks @ [Type qf, Advance df]) w) =
             requests w @ [(searchMode (ui w), normalize (searchMode (ui w)) qf)]))"
proof (intro conjI impI)
  assume "q \<noteq> query (ui w)"
  then show "timers (step (Type q) w) = scheduled ((ui w)\<lparr>query := q\<rparr>) w"
    using change_timers [OF t, of "(ui w)\<lparr>query := q\<rparr>"] by (simp add: deps_def)
next
  assume "m \<noteq> searchMode (ui w)"
  then show "timers (step (SetSearchMode m) w) = scheduled ((ui w)\<lparr>searchMode := m\<rparr>) w"
    using change_timers [OF t, of "(ui w)\<lparr>searchMode := m\<rparr>"] by (simp add: deps_def)
next
  assume "v \<noteq> currentView (ui w)"
  then show "timers (step (SetCurrentView v) w) = scheduled ((ui w)\<lparr>currentView := v\<rparr>) w"
    using change_timers [OF t, of "(ui w)\<lparr>currentView := v\<rparr>"] by (simp add: deps_def)
next
  assume "\<forall>x\<in>set (timers w). clock w + d < t_due x"
  then show "step (Advance d) w = w\<lparr>clock := clock w + d\<rparr>"
    by (simp add: advance_idle)
next
  assume "timers w = [x] \<and> t_due x \<le> clock w + d"
  then show "step (Advance d) w =
          start_search (t_render x) (w\<lparr>clock := clock w + d, timers := []\<rparr>)"
    by (simp add: advance_fire)
next
  assume a: "q \<noteq> query (ui w) \<and> length (trim q) = 1"
  with short_query_silent [OF t, of q d]
  show "requests (run [Type q, Advance d] w) = requests w"
    and "timers (run [Type q, Advance d] w) = []" by simp_all
next
  assume a: "changes (query (ui w)) (map fst ks @ [qf]) \<and> list_all (\<lambda>(q, d). d < 400) ks \<and>
      400 \<le> df \<and> currentView (ui w) = SearchView \<and> 2 \<le> length (trim qf)"
  then have ch: "changes (query (ui w)) (map fst ks @ [qf])"
    and gaps: "list_all (\<lambda>(q, d). d < 400) ks" and d: "400 \<le> df"
    and v: "currentView (ui w) = SearchView" and l: "2 \<le> length (trim qf)" by simp_all
  note b = burst_then_fire [OF t ch gaps d v l]
  from b(1)
  show "requests (run (burst ks @ [Type qf, Advance df]) w) = requests w \<or>
         requests (run (burst ks @ [Type qf, Advance df]) w) =
           requests w @ [(searchMode (ui w), normalize (searchMode (ui w)) qf)]"
    by (simp split: if_splits)
  assume f: "\<not> same_as_displayed (searchMode (ui w)) (wordData (ui w)) (sentenceData (ui w))
              (trim qf) \<and>
         \<not> memoized (caches w) (searchMode (ui w)) qf"
  from b(2) have "wordData (ui (run (burst ks) w)) = wordData (ui w) \<or>
      wordData (ui (run (burst ks) w)) = None"
    and "sentenceData (ui (run (burst ks) w)) = sentenceData (ui w) \<or>
      sentenceData (ui (run (burst ks) w)) = None"
    by (simp_all add: unchanged_lookups_def)
  with f have "\<not> same_as_displayed (searchMode (ui w)) (wordData (ui (run (burst ks) w)))
             (sentenceData (ui (run (burst ks) w))) (trim qf)"
    using same_as_displayed_cleared by blast
  with f b(1)
  show "requests (run (burst ks @ [Type qf, Advance df]) w) =
             requests w @ [(searchMode (ui w), normalize (searchMode (ui w)) qf)]"
    by simp
qed

lemma trim_cat: "trim ''cat'' = ''cat''" by (simp add: trim_def is_space_def)

lemma lower_cat: "toLowerCase ''cat'' = ''cat''" by (simp add: toLowerCase_def lower_char_def)

theorem debounce_trigger_conditions_witness:
  "tidy (initial_world [] [] []) \<and>
   changes (query (ui (initial_world [] [] []))) (map fst [(''c'', 100), (''ca'', 100)] @ [''cat'']) \<and>
   list_all (\<lambda>(q, d). d < 400) [(''c'', 100::nat), (''ca'', 100)] \<and>
   currentView (ui (initial_world [] [] [])) = SearchView \<and>
   2 \<le> length (trim ''cat'') \<and>
   \<not> same_as_displayed WordMode (wordData (ui (initial_world [] [] [])))
        (sentenceData (ui (initial_world [] [] []))) (trim ''cat'') \<and>
   \<not> memoized (caches (initial_world [] [] [])) WordMode ''cat'' \<and>
   requests (run (burst [(''c'', 100), (''ca'', 100)] @ [Type ''cat'', Advance 400])
     (initial_world [] [] [])) = [(WordMode, ''cat'')] \<and>
   ''c'' \<noteq> query (ui (initial_world [] [] [])) \<and> length (trim ''c'') = 1 \<and>
   requests (run [Type ''c'', Advance 1000] (initial_world [] [] [])) = [] \<and>
   timers (step (Type ''ca'') (initial_world [] [] [])) =
     [\<lparr>t_id = 1, t_due = 400,
       t_render = \<lparr>r_query = ''ca'', r_searchMode = WordMode, r_wordData = None,
                    r_sentenceData = None\<rparr>\<rparr>]"
proof -
  let ?w = "initial_world [] [] []"
  have t: "tidy ?w" by (rule tidy_initial)
  have 1: "changes (query (ui ?w)) (map fst [(''c'', 100), (''ca'', 100)] @ [''cat''])"
    by code_simp
  have 2: "list_all (\<lambda>(q, d). d < 400) [(''c'', 100::nat), (''ca'', 100)]" by simp
  have 3: "currentView (ui ?w) = SearchView" by code_simp
  have 4: "2 \<le> length (trim ''cat'')" by (simp add: trim_cat)
  have 5: "\<not> same_as_displayed WordMode (wordData (ui ?w)) (sentenceData (ui ?w)) (trim ''cat'')"
    by code_simp
  have c: "caches ?w = \<lparr>wordCache = Map.empty, sentenceCache = Map.empty\<rparr>"
    by (simp add: initial_world_def debounce_effect_def Let_def initial_state_def trim_def)
  have 6: "\<not> memoized (caches ?w) WordMode ''cat''" unfolding c by simp
  have 7: "searchMode (ui ?w) = WordMode" by code_simp
  have 8: "requests ?w = []" by code_simp
  have 9: "''c'' \<noteq> query (ui ?w)" by code_simp
  have 10: "length (trim ''c'') = 1" by code_simp
  have 11: "''ca'' \<noteq> query (ui ?w)" by code_simp
  have 12: "scheduled ((ui ?w)\<lparr>query := ''ca''\<rparr>) ?w =
     [\<lparr>t_id = 1, t_due = 400,
       t_render = \<lparr>r_query = ''ca'', r_searchMode = WordMode, r_wordData = None,
                    r_sentenceData = None\<rparr>\<rparr>]"
    by code_simp
  note th = debounce_trigger_conditions [OF t]
  from th [of _ _ _ _ _ "[(''c'', 100), (''ca'', 100)]" "''cat''" 400] 1 2 3 4 5 6 7 8
  have a: "requests (run (burst [(''c'', 100), (''ca'', 100)] @ [Type ''cat'', Advance 400]) ?w) =
      [(WordMode, ''cat'')]"
    by (simp add: trim_cat lower_cat)
  from th [of "''c''" _ _ 1000] 9 10 8
  have b: "requests (run [Type ''c'', Advance 1000] ?w) = []" by simp
  from th [of "''ca''"] 11 12
  have c: "timers (step (Type ''ca'') ?w) =
     [\<lparr>t_id = 1, t_due = 400,
       t_render = \<lparr>r_query = ''ca'', r_searchMode = WordMode, r_wordData = None,
                    r_sentenceData = None\<rparr>\<rparr>]"
    by simp
  from t 1 2 3 4 5 6 a 9 10 b c show ?thesis by simp
qed

end
